theory Spec2Isabelle
  imports Complex_Main "HOL-Library.Word"
begin

section \<open>The notebook PytorchTensorflowMnist.ipynb as a sequence of library calls\<close>

text \<open>
  The notebook is a linear script: eight code cells, run one after the other, each a
  series of calls into PyTorch, torchvision, ONNX, onnx-tf, NumPy, PIL and IPython.
  The embedding keeps the control flow of the cells (sequencing, the two \<open>for\<close> loops,
  the \<open>with torch.no_grad()\<close> block, the conditional logging) and records every call
  the notebook's own code makes, with the arguments the notebook passes.  What the
  libraries compute is not part of the repository; it enters through a \<open>world\<close>
  record of uninterpreted functions, and a library call may raise whenever the world
  says so.

  A library call is atomic: code of the notebook that a library calls back during such a
  call (\<open>Net.forward\<close> under \<open>model(data)\<close> and under the exporter's tracing pass) is
  described by the value the call carries, not by separate log entries.  Reading a
  plain attribute (\<open>args.seed\<close>, \<open>train_loader.dataset\<close>, \<open>np.float32\<close>), building a
  literal, formatting a message with \<open>str.format\<close> and adding Python numbers are not
  logged; everything else that the cells execute is, also the divisions \<open>/\<close> and \<open>%\<close>
  of Python numbers, which raise on a zero divisor.
\<close>

subsection \<open>Values\<close>

type_synonym path = string

datatype exn =
    ImportError string
  | FileNotFoundError path
  | RuntimeError string
  | ZeroDivisionError
  | LibraryError string

text \<open>An array: its shape and its elements in row-major order.  A float32 element is a
  real number; no float arithmetic is modelled.\<close>

record tensor =
  shape :: "nat list"
  elems :: "real list"

text \<open>A PIL image: size as (width, height), mode, and the bytes of its raster.\<close>

record image =
  im_size :: "nat \<times> nat"
  im_mode :: string
  im_raster :: "8 word list"

text \<open>\<open>class Net(nn.Module)\<close>: the layers created by \<open>__init__\<close> and the operations
  of \<open>forward\<close>.\<close>

datatype layer = Conv2d nat nat nat | Dropout2d | Linear nat nat

datatype fop =
    Apply string
  | MaxPool2d nat
  | Relu
  | View "int list"
  | FDropout bool
  | LogSoftmax nat

text \<open>An instance of \<open>Net\<close>: the parameter values (opaque, of type \<open>'v\<close>) and the
  \<open>training\<close> flag that \<open>model.train()\<close> and \<open>model.eval()\<close> set.\<close>

record 'v net =
  params :: 'v
  training :: bool

definition forward :: "'v net \<Rightarrow> fop list" where
  "forward self =
     [Apply ''conv1'', MaxPool2d 2, Relu,
      Apply ''conv2'', Apply ''conv2_drop'', MaxPool2d 2, Relu,
      View [- 1, 320],
      Apply ''fc1'', Relu,
      FDropout (training self),
      Apply ''fc2'',
      LogSoftmax 1]"

datatype transform = ToTensor | Normalize real real

datatype loader = TrainLoader | TestLoader

datatype kwarg = NumWorkers nat | PinMemory bool

datatype msg =
    TrainStatus nat nat
  | TestSummary
  | Inputs
  | Outputs
  | TensorDict
  | Classified
  | Text string

subsection \<open>Library calls\<close>

text \<open>The calls the notebook makes, grouped by the object they are made on.  Each
  carries the arguments the notebook passes; a value computed by a library and only
  handed on to a library (a batch, an output, a loss) is not represented.\<close>

datatype py_call =
    Import string
  | DefineClass string
  | Len string
  | TrueDiv nat
  | Mod nat
  | Print msg
  | Display

text \<open>A value of a command-line option, and the calls on \<open>argparse\<close>:
  \<open>ArgumentParser(description)\<close>, \<open>add_argument\<close> with the option and its default (an
  \<open>int\<close>, a \<open>float\<close>, or the flag of a \<open>store_true\<close> option; \<open>metavar\<close> and \<open>help\<close>, which
  only matter for the usage message, are left out), and \<open>parse_args\<close> with the list it
  is given.\<close>

datatype argval = IntVal int | FloatVal real | BoolVal bool

datatype arg_call =
    ArgumentParser string
  | AddArgument string argval
  | ParseArgs "string list"

datatype torch_call =
    CudaIsAvailable
  | ManualSeed int
  | TorchDevice string
  | SGDInit real real
  | ZeroGrad
  | OptimizerStep
  | NllLoss "string option"
  | NoGradInit
  | NoGradEnter
  | NoGradExit
  | Randn "nat list"
  | Variable

datatype module_call =
    ModuleInit
  | LayerInit string layer
  | ModuleTo string
  | Parameters
  | ModelTrain
  | ModelEval
  | ModuleCall "fop list"
  | StateDict

datatype tensor_call =
    TensorTo string
  | Backward
  | Item
  | TensorMax
  | GetItem nat
  | ViewAs
  | TensorEq
  | TensorSum

datatype data_call =
    TransformInit transform
  | ComposeInit "transform list"
  | MNIST path bool bool "transform list"
  | DataLoader loader nat bool "kwarg list"
  | LoaderIter loader
  | NextBatch loader nat

datatype image_call =
    ImageOpen path
  | ImageResize "nat \<times> nat"
  | ImageConvert string
  | NpAsarray
  | NewAxes
  | Argmax

datatype 'v model_call =
    TorchSave 'v path
  | TorchLoad path
  | LoadStateDict 'v
  | OnnxExport "'v net" tensor path
  | OnnxLoad path
  | Prepare 'v
  | TfProperty 'v string
  | TfRun 'v tensor
  | ExportGraph 'v path

datatype 'v call =
    Py py_call
  | Arg arg_call
  | Torch torch_call
  | Module module_call
  | Tensor tensor_call
  | Data data_call
  | Img image_call
  | Model "'v model_call"

subsection \<open>The world outside the notebook\<close>

text \<open>
  Everything the libraries decide: whether a call raises (\<open>raises\<close>, asked with the
  number of calls made so far and the call), what is on disk at the start, whether CUDA
  is there, how many batches the loaders yield and what \<open>len\<close> returns, and the values
  the libraries compute.  All of it is uninterpreted.
\<close>

record 'v world =
  raises :: "nat \<Rightarrow> 'v call \<Rightarrow> exn option"
  files0 :: "path \<Rightarrow> 'v option"
  cuda :: bool
  train_batches :: nat
  test_batches :: nat
  len_train_loader :: nat
  len_test_dataset :: nat
  fresh_params :: "nat \<Rightarrow> 'v"
  step_params :: "nat \<Rightarrow> 'v \<Rightarrow> 'v"
  pickle :: "'v \<Rightarrow> 'v"
  unpickle :: "'v \<Rightarrow> 'v"
  randn :: "nat \<Rightarrow> nat list \<Rightarrow> real list"
  onnx_bytes :: "'v net \<Rightarrow> tensor \<Rightarrow> 'v"
  onnx_parse :: "'v \<Rightarrow> 'v"
  tf_prepare :: "'v \<Rightarrow> 'v"
  tf_graph :: "'v \<Rightarrow> 'v"
  mnist_files :: 'v
  pil_open :: "'v \<Rightarrow> image"
  pil_resize :: "image \<Rightarrow> nat \<times> nat \<Rightarrow> 8 word list"
  pil_convert :: "image \<Rightarrow> string \<Rightarrow> 8 word list"

subsection \<open>State, exceptions, sequencing\<close>

text \<open>The state of a run: the log of calls made so far, each with the exception it
  raised (if any), and the files on disk.\<close>

type_synonym 'v event = "'v call \<times> exn option"

record 'v state =
  trace :: "'v event list"
  files :: "path \<Rightarrow> 'v option"

type_synonym ('v, 'a) prog = "'v state \<Rightarrow> (exn + 'a) \<times> 'v state"

definition ret :: "'a \<Rightarrow> ('v, 'a) prog" where
  "ret a = (\<lambda>s. (Inr a, s))"

text \<open>Statement sequencing: an exception of the first part skips the rest.  The
  notebook has no \<open>try\<close>, so this is the only way an exception is ever treated.\<close>

definition bnd :: "('v, 'a) prog \<Rightarrow> ('a \<Rightarrow> ('v, 'b) prog) \<Rightarrow> ('v, 'b) prog" where
  "bnd m f = (\<lambda>s. case m s of (Inl e, s') \<Rightarrow> (Inl e, s') | (Inr a, s') \<Rightarrow> f a s')"

definition record_call :: "'v event \<Rightarrow> 'v state \<Rightarrow> 'v state" where
  "record_call ev s = s\<lparr>trace := trace s @ [ev]\<rparr>"

definition emit :: "'v call \<Rightarrow> exn option \<Rightarrow> ('v, unit) prog" where
  "emit c r = (\<lambda>s. (case r of None \<Rightarrow> Inr () | Some e \<Rightarrow> Inl e, record_call (c, r) s))"

text \<open>A library call: it is logged, and it raises when the world says so.\<close>

definition call :: "'v world \<Rightarrow> 'v call \<Rightarrow> ('v, unit) prog" where
  "call w c = (\<lambda>s. emit c (raises w (length (trace s)) c) s)"

text \<open>A library call that opens the file at \<open>p\<close> for reading: it also raises when
  the file is not there, and returns the file's content otherwise.\<close>

definition read_file :: "'v world \<Rightarrow> 'v call \<Rightarrow> path \<Rightarrow> ('v, 'v) prog" where
  "read_file w c p = (\<lambda>s.
     case raises w (length (trace s)) c of
       Some e \<Rightarrow> (Inl e, record_call (c, Some e) s)
     | None \<Rightarrow>
        (case files s p of
           None \<Rightarrow> (Inl (FileNotFoundError p), record_call (c, Some (FileNotFoundError p)) s)
         | Some v \<Rightarrow> (Inr v, record_call (c, None) s)))"

definition write_file :: "path \<Rightarrow> 'v \<Rightarrow> ('v, unit) prog" where
  "write_file p v = (\<lambda>s. (Inr (), s\<lparr>files := (files s)(p \<mapsto> v)\<rparr>))"

text \<open>Python's \<open>/\<close> on numbers: \<open>ZeroDivisionError\<close> when the divisor is zero.  The
  quotient is only printed, so it is not returned.\<close>

definition truediv :: "nat \<Rightarrow> ('v, unit) prog" where
  "truediv n = emit (Py (TrueDiv n)) (if n = 0 then Some ZeroDivisionError else None)"

text \<open>Python's \<open>%\<close> on natural numbers: \<open>ZeroDivisionError\<close> when the divisor is
  zero, the remainder otherwise.\<close>

definition pymod :: "nat \<Rightarrow> nat \<Rightarrow> ('v, nat) prog" where
  "pymod m n =
     bnd (emit (Py (Mod n)) (if n = 0 then Some ZeroDivisionError else None)) (\<lambda>_.
     ret (m mod n))"

text \<open>\<open>with torch.no_grad(): body\<close>.  The context manager is created and entered; if
  either raises, the body does not run and \<open>__exit__\<close> is not called.  Once entered,
  \<open>__exit__\<close> runs on the way out, also when the body raised; it does not swallow the
  exception (it returns a false value), and an exception of \<open>__exit__\<close> itself replaces
  the one in flight.\<close>

definition with_no_grad :: "'v world \<Rightarrow> ('v, 'a) prog \<Rightarrow> ('v, 'a) prog" where
  "with_no_grad w body =
     bnd (call w (Torch NoGradInit)) (\<lambda>_.
     bnd (call w (Torch NoGradEnter)) (\<lambda>_. \<lambda>s.
       case body s of
         (Inr a, s1) \<Rightarrow> bnd (call w (Torch NoGradExit)) (\<lambda>_. ret a) s1
       | (Inl e, s1) \<Rightarrow>
          (case call w (Torch NoGradExit) s1 of
             (Inr _, s2) \<Rightarrow> (Inl e, s2)
           | (Inl e', s2) \<Rightarrow> (Inl e', s2))))"

text \<open>A \<open>for\<close> loop over a list, threading the value the body updates.\<close>

fun for_each :: "'a list \<Rightarrow> ('a \<Rightarrow> 'b \<Rightarrow> ('v, 'b) prog) \<Rightarrow> 'b \<Rightarrow> ('v, 'b) prog" where
  "for_each [] body acc = ret acc"
| "for_each (x # xs) body acc = bnd (body x acc) (for_each xs body)"

text \<open>A \<open>for\<close> loop over a data loader that yields \<open>n\<close> batches: the iterator is
  created, each batch is fetched by a call of its own, and one more fetch finds the
  loader exhausted.\<close>

definition for_batches ::
  "'v world \<Rightarrow> loader \<Rightarrow> nat \<Rightarrow> (nat \<Rightarrow> 'b \<Rightarrow> ('v, 'b) prog) \<Rightarrow> 'b \<Rightarrow> ('v, 'b) prog" where
  "for_batches w l n body acc =
     bnd (call w (Data (LoaderIter l))) (\<lambda>_.
     bnd (for_each [0..<n]
            (\<lambda>i a. bnd (call w (Data (NextBatch l i))) (\<lambda>_. body i a)) acc) (\<lambda>a.
     bnd (call w (Data (NextBatch l n))) (\<lambda>_.
     ret a)))"

subsection \<open>Cell 1: the model\<close>

text \<open>\<open>Net()\<close>: \<open>__init__\<close> calls the constructor of \<open>nn.Module\<close> and creates the five
  layers.  A new module is in training mode; its parameters are the library's initial
  values.\<close>

definition Net_init :: "'v world \<Rightarrow> ('v, 'v net) prog" where
  "Net_init w =
     bnd (call w (Module ModuleInit)) (\<lambda>_.
     bnd (call w (Module (LayerInit ''conv1'' (Conv2d 1 10 5)))) (\<lambda>_.
     bnd (call w (Module (LayerInit ''conv2'' (Conv2d 10 20 5)))) (\<lambda>_.
     bnd (call w (Module (LayerInit ''conv2_drop'' Dropout2d))) (\<lambda>_.
     bnd (call w (Module (LayerInit ''fc1'' (Linear 320 50)))) (\<lambda>_.
     bnd (call w (Module (LayerInit ''fc2'' (Linear 50 10)))) (\<lambda>_. \<lambda>s.
     ret \<lparr>params = fresh_params w (length (trace s)), training = True\<rparr> s))))))"

definition cell_define :: "'v world \<Rightarrow> ('v, unit) prog" where
  "cell_define w =
     bnd (call w (Py (Import ''torch''))) (\<lambda>_.
     bnd (call w (Py (Import ''torch.nn''))) (\<lambda>_.
     bnd (call w (Py (Import ''torch.nn.functional''))) (\<lambda>_.
     call w (Py (DefineClass ''Net'')))))"

subsection \<open>Cell 2: training and evaluation\<close>

text \<open>The settings: the parser's defaults, overridden by
  \<open>parse_args(['--epochs', '60', '--log-interval', '300'])\<close>.  The options and the
  argument list are literals, so what \<open>parse_args\<close> returns, when it returns, is this
  constant.\<close>

record namespace =
  batch_size :: nat
  test_batch_size :: nat
  epochs :: nat
  lr :: real
  momentum :: real
  no_cuda :: bool
  seed :: int
  log_interval :: nat

definition args :: namespace where
  "args = \<lparr>batch_size = 64, test_batch_size = 1000, epochs = 60, lr = 0.01,
            momentum = 0.5, no_cuda = False, seed = 1, log_interval = 300\<rparr>"

text \<open>The parser and its eight options.\<close>

definition make_parser :: "'v world \<Rightarrow> ('v, unit) prog" where
  "make_parser w =
     bnd (call w (Arg (ArgumentParser ''PyTorch MNIST Example''))) (\<lambda>_.
     bnd (call w (Arg (AddArgument ''--batch-size'' (IntVal 64)))) (\<lambda>_.
     bnd (call w (Arg (AddArgument ''--test-batch-size'' (IntVal 1000)))) (\<lambda>_.
     bnd (call w (Arg (AddArgument ''--epochs'' (IntVal 10)))) (\<lambda>_.
     bnd (call w (Arg (AddArgument ''--lr'' (FloatVal 0.01)))) (\<lambda>_.
     bnd (call w (Arg (AddArgument ''--momentum'' (FloatVal 0.5)))) (\<lambda>_.
     bnd (call w (Arg (AddArgument ''--no-cuda'' (BoolVal False)))) (\<lambda>_.
     bnd (call w (Arg (AddArgument ''--seed'' (IntVal 1)))) (\<lambda>_.
     call w (Arg (AddArgument ''--log-interval'' (IntVal 10)))))))))))"

definition parse_args :: "'v world \<Rightarrow> ('v, namespace) prog" where
  "parse_args w =
     bnd (call w (Arg (ParseArgs [''--epochs'', ''60'', ''--log-interval'', ''300'']))) (\<lambda>_.
     ret args)"

text \<open>\<open>optimizer.step()\<close>: the only place where the parameters of the model change
  during training, and the new values are the library's.\<close>

definition optimizer_step :: "'v world \<Rightarrow> 'v net \<Rightarrow> ('v, 'v net) prog" where
  "optimizer_step w model = (\<lambda>s.
     bnd (call w (Torch OptimizerStep)) (\<lambda>_.
     ret (model\<lparr>params := step_params w (length (trace s)) (params model)\<rparr>)) s)"

definition print_train_status :: "'v world \<Rightarrow> nat \<Rightarrow> nat \<Rightarrow> ('v, unit) prog" where
  "print_train_status w epoch batch_idx =
     bnd (call w (Py (Len ''data''))) (\<lambda>_.
     bnd (call w (Py (Len ''train_loader.dataset''))) (\<lambda>_.
     bnd (call w (Py (Len ''train_loader''))) (\<lambda>_.
     bnd (truediv (len_train_loader w)) (\<lambda>_.
     bnd (call w (Tensor Item)) (\<lambda>_.
     call w (Py (Print (TrainStatus epoch batch_idx))))))))"

text \<open>The body of the loop of \<open>train\<close>, for one batch.\<close>

definition train_batch ::
  "'v world \<Rightarrow> namespace \<Rightarrow> string \<Rightarrow> nat \<Rightarrow> nat \<Rightarrow> 'v net \<Rightarrow> ('v, 'v net) prog" where
  "train_batch w a device epoch batch_idx model =
     bnd (call w (Tensor (TensorTo device))) (\<lambda>_.
     bnd (call w (Tensor (TensorTo device))) (\<lambda>_.
     bnd (call w (Torch ZeroGrad)) (\<lambda>_.
     bnd (call w (Module (ModuleCall (forward model)))) (\<lambda>_.
     bnd (call w (Torch (NllLoss None))) (\<lambda>_.
     bnd (call w (Tensor Backward)) (\<lambda>_.
     bnd (optimizer_step w model) (\<lambda>model'.
     bnd (pymod batch_idx (log_interval a)) (\<lambda>r.
     bnd (if r = 0 then print_train_status w epoch batch_idx else ret ()) (\<lambda>_.
     ret model')))))))))"

definition train ::
  "'v world \<Rightarrow> namespace \<Rightarrow> 'v net \<Rightarrow> string \<Rightarrow> nat \<Rightarrow> ('v, 'v net) prog" where
  "train w a model device epoch =
     bnd (call w (Module ModelTrain)) (\<lambda>_.
     for_batches w TrainLoader (train_batches w) (train_batch w a device epoch)
       (model\<lparr>training := True\<rparr>))"

text \<open>The body of the loop of \<open>test\<close>, for one batch.\<close>

definition test_batch :: "'v world \<Rightarrow> string \<Rightarrow> 'v net \<Rightarrow> ('v, unit) prog" where
  "test_batch w device model =
     bnd (call w (Tensor (TensorTo device))) (\<lambda>_.
     bnd (call w (Tensor (TensorTo device))) (\<lambda>_.
     bnd (call w (Module (ModuleCall (forward model)))) (\<lambda>_.
     bnd (call w (Torch (NllLoss (Some ''sum'')))) (\<lambda>_.
     bnd (call w (Tensor Item)) (\<lambda>_.
     bnd (call w (Tensor TensorMax)) (\<lambda>_.
     bnd (call w (Tensor (GetItem 1))) (\<lambda>_.
     bnd (call w (Tensor ViewAs)) (\<lambda>_.
     bnd (call w (Tensor TensorEq)) (\<lambda>_.
     bnd (call w (Tensor TensorSum)) (\<lambda>_.
     call w (Tensor Item)))))))))))"

definition test :: "'v world \<Rightarrow> namespace \<Rightarrow> 'v net \<Rightarrow> string \<Rightarrow> ('v, 'v net) prog" where
  "test w a model device =
     bnd (call w (Module ModelEval)) (\<lambda>_.
     bnd (with_no_grad w
            (for_batches w TestLoader (test_batches w)
               (\<lambda>_ _. test_batch w device (model\<lparr>training := False\<rparr>)) ())) (\<lambda>_.
     bnd (call w (Py (Len ''test_loader.dataset''))) (\<lambda>_.
     bnd (truediv (len_test_dataset w)) (\<lambda>_.
     bnd (call w (Py (Len ''test_loader.dataset''))) (\<lambda>_.
     bnd (call w (Py (Len ''test_loader.dataset''))) (\<lambda>_.
     bnd (truediv (len_test_dataset w)) (\<lambda>_.
     bnd (call w (Py (Print TestSummary))) (\<lambda>_.
     ret (model\<lparr>training := False\<rparr>)))))))))"

text \<open>\<open>datasets.MNIST(root, train, download, transform)\<close>.  With \<open>download=True\<close> the
  library fetches the data set and stores it under the directory \<open>root\<close> unless it is there already;
  without it, a missing data set is an error.\<close>

definition datasets_MNIST ::
  "'v world \<Rightarrow> path \<Rightarrow> bool \<Rightarrow> bool \<Rightarrow> transform list \<Rightarrow> ('v, unit) prog" where
  "datasets_MNIST w dir is_train download tf = (\<lambda>s.
     let c = Data (MNIST dir is_train download tf) in
     case raises w (length (trace s)) c of
       Some e \<Rightarrow> (Inl e, record_call (c, Some e) s)
     | None \<Rightarrow>
        (case files s dir of
           Some _ \<Rightarrow> (Inr (), record_call (c, None) s)
         | None \<Rightarrow>
            if download
            then (Inr (), record_call (c, None) (s\<lparr>files := (files s)(dir \<mapsto> mnist_files w)\<rparr>))
            else (Inl (RuntimeError ''Dataset not found''),
                  record_call (c, Some (RuntimeError ''Dataset not found'')) s)))"

definition mnist_transform :: "transform list" where
  "mnist_transform = [ToTensor, Normalize 0.1307 0.3081]"

definition make_transform :: "'v world \<Rightarrow> ('v, transform list) prog" where
  "make_transform w =
     bnd (call w (Data (TransformInit ToTensor))) (\<lambda>_.
     bnd (call w (Data (TransformInit (Normalize 0.1307 0.3081)))) (\<lambda>_.
     bnd (call w (Data (ComposeInit mnist_transform))) (\<lambda>_.
     ret mnist_transform)))"

text \<open>\<open>for epoch in range(1, args.epochs + 1): train(...); test(...)\<close>\<close>

definition epoch_loop ::
  "'v world \<Rightarrow> namespace \<Rightarrow> 'v net \<Rightarrow> string \<Rightarrow> ('v, 'v net) prog" where
  "epoch_loop w a model device =
     for_each [1..<epochs a + 1]
       (\<lambda>epoch model.
          bnd (train w a model device epoch) (\<lambda>model.
          test w a model device))
       model"

definition cell_train :: "'v world \<Rightarrow> ('v, 'v net) prog" where
  "cell_train w =
     bnd (call w (Py (Import ''argparse''))) (\<lambda>_.
     bnd (call w (Py (Import ''torch.optim''))) (\<lambda>_.
     bnd (call w (Py (Import ''torchvision''))) (\<lambda>_.
     bnd (make_parser w) (\<lambda>_.
     bnd (parse_args w) (\<lambda>args.
     bnd (if \<not> no_cuda args
          then bnd (call w (Torch CudaIsAvailable)) (\<lambda>_. ret (cuda w))
          else ret False) (\<lambda>use_cuda.
     bnd (call w (Torch (ManualSeed (seed args)))) (\<lambda>_.
     let device = (if use_cuda then ''cuda'' else ''cpu'') in
     bnd (call w (Torch (TorchDevice device))) (\<lambda>_.
     let kwargs = (if use_cuda then [NumWorkers 1, PinMemory True] else []) in
     bnd (make_transform w) (\<lambda>tf.
     bnd (datasets_MNIST w ''../data'' True True tf) (\<lambda>_.
     bnd (call w (Data (DataLoader TrainLoader (batch_size args) True kwargs))) (\<lambda>_.
     bnd (make_transform w) (\<lambda>tf.
     bnd (datasets_MNIST w ''../data'' False False tf) (\<lambda>_.
     bnd (call w (Data (DataLoader TestLoader (test_batch_size args) True kwargs))) (\<lambda>_.
     bnd (Net_init w) (\<lambda>model.
     bnd (call w (Module (ModuleTo device))) (\<lambda>_.
     bnd (call w (Module Parameters)) (\<lambda>_.
     bnd (call w (Torch (SGDInit (lr args) (momentum args)))) (\<lambda>_.
     epoch_loop w args model device))))))))))))))))))"

subsection \<open>Cell 3: the checkpoint\<close>

definition torch_save :: "'v world \<Rightarrow> 'v \<Rightarrow> path \<Rightarrow> ('v, unit) prog" where
  "torch_save w obj p =
     bnd (call w (Model (TorchSave obj p))) (\<lambda>_. write_file p (pickle w obj))"

definition cell_save :: "'v world \<Rightarrow> 'v net \<Rightarrow> ('v, unit) prog" where
  "cell_save w model =
     bnd (call w (Module StateDict)) (\<lambda>_.
     torch_save w (params model) ''output/mnist.pth'')"

subsection \<open>Cell 4: export to ONNX\<close>

definition torch_load :: "'v world \<Rightarrow> path \<Rightarrow> ('v, 'v) prog" where
  "torch_load w p = bnd (read_file w (Model (TorchLoad p)) p) (\<lambda>v. ret (unpickle w v))"

text \<open>\<open>load_state_dict\<close> replaces the parameters of the module by the loaded ones.\<close>

definition load_state_dict :: "'v world \<Rightarrow> 'v net \<Rightarrow> 'v \<Rightarrow> ('v, 'v net) prog" where
  "load_state_dict w self sd =
     bnd (call w (Model (LoadStateDict sd))) (\<lambda>_. ret (self\<lparr>params := sd\<rparr>))"

definition torch_randn :: "'v world \<Rightarrow> nat list \<Rightarrow> ('v, tensor) prog" where
  "torch_randn w shp = (\<lambda>s.
     bnd (call w (Torch (Randn shp))) (\<lambda>_.
     ret \<lparr>shape = shp, elems = randn w (length (trace s)) shp\<rparr>) s)"

definition torch_onnx_export :: "'v world \<Rightarrow> 'v net \<Rightarrow> tensor \<Rightarrow> path \<Rightarrow> ('v, unit) prog" where
  "torch_onnx_export w model x p =
     bnd (call w (Model (OnnxExport model x p))) (\<lambda>_. write_file p (onnx_bytes w model x))"

definition cell_export :: "'v world \<Rightarrow> ('v, unit) prog" where
  "cell_export w =
     bnd (call w (Py (Import ''torch.autograd''))) (\<lambda>_.
     bnd (Net_init w) (\<lambda>trained_model.
     bnd (torch_load w ''output/mnist.pth'') (\<lambda>sd.
     bnd (load_state_dict w trained_model sd) (\<lambda>trained_model.
     bnd (torch_randn w [1, 1, 28, 28]) (\<lambda>x.
     bnd (call w (Torch Variable)) (\<lambda>_.
     let dummy_input = x in
     torch_onnx_export w trained_model dummy_input ''output/mnist.onnx''))))))"

subsection \<open>Cells 5 and 6: import into TensorFlow\<close>

definition onnx_load :: "'v world \<Rightarrow> path \<Rightarrow> ('v, 'v) prog" where
  "onnx_load w p = bnd (read_file w (Model (OnnxLoad p)) p) (\<lambda>v. ret (onnx_parse w v))"

definition prepare :: "'v world \<Rightarrow> 'v \<Rightarrow> ('v, 'v) prog" where
  "prepare w model = bnd (call w (Model (Prepare model))) (\<lambda>_. ret (tf_prepare w model))"

definition cell_import :: "'v world \<Rightarrow> ('v, 'v) prog" where
  "cell_import w =
     bnd (call w (Py (Import ''onnx''))) (\<lambda>_.
     bnd (call w (Py (Import ''onnx_tf.backend''))) (\<lambda>_.
     bnd (onnx_load w ''output/mnist.onnx'') (\<lambda>model.
     prepare w model)))"

text \<open>\<open>tf_rep.inputs\<close>, \<open>tf_rep.outputs\<close> and \<open>tf_rep.tensor_dict\<close> are properties of
  the library's object: reading one runs library code.\<close>

definition cell_explore :: "'v world \<Rightarrow> 'v \<Rightarrow> ('v, unit) prog" where
  "cell_explore w tf_rep =
     bnd (call w (Model (TfProperty tf_rep ''inputs''))) (\<lambda>_.
     bnd (call w (Py (Print Inputs))) (\<lambda>_.
     bnd (call w (Model (TfProperty tf_rep ''outputs''))) (\<lambda>_.
     bnd (call w (Py (Print Outputs))) (\<lambda>_.
     bnd (call w (Py (Print (Text ''tensor_dict:'')))) (\<lambda>_.
     bnd (call w (Model (TfProperty tf_rep ''tensor_dict''))) (\<lambda>_.
     call w (Py (Print TensorDict))))))))"

subsection \<open>Cell 7: inference on the two sample images\<close>

definition Image_open :: "'v world \<Rightarrow> path \<Rightarrow> ('v, image) prog" where
  "Image_open w p = bnd (read_file w (Img (ImageOpen p)) p) (\<lambda>v. ret (pil_open w v))"

text \<open>\<open>img.resize(sz)\<close> and \<open>img.convert(mode)\<close> return new images; the rasters are the
  library's.\<close>

definition resized :: "'v world \<Rightarrow> image \<Rightarrow> nat \<times> nat \<Rightarrow> image" where
  "resized w img sz = img\<lparr>im_size := sz, im_raster := pil_resize w img sz\<rparr>"

definition converted :: "'v world \<Rightarrow> image \<Rightarrow> string \<Rightarrow> image" where
  "converted w img m = img\<lparr>im_mode := m, im_raster := pil_convert w img m\<rparr>"

definition resize :: "'v world \<Rightarrow> image \<Rightarrow> nat \<times> nat \<Rightarrow> ('v, image) prog" where
  "resize w img sz = bnd (call w (Img (ImageResize sz))) (\<lambda>_. ret (resized w img sz))"

definition convert :: "'v world \<Rightarrow> image \<Rightarrow> string \<Rightarrow> ('v, image) prog" where
  "convert w img m = bnd (call w (Img (ImageConvert m))) (\<lambda>_. ret (converted w img m))"

text \<open>\<open>np.asarray(img, dtype=np.float32)\<close> of an image of mode L: one row per line of
  the image, each byte of the raster as the float of the same value.\<close>

definition float32_array :: "image \<Rightarrow> tensor" where
  "float32_array img =
     \<lparr>shape = [snd (im_size img), fst (im_size img)],
      elems = map (\<lambda>b. real (unat b)) (im_raster img)\<rparr>"

definition np_asarray :: "'v world \<Rightarrow> image \<Rightarrow> ('v, tensor) prog" where
  "np_asarray w img = bnd (call w (Img NpAsarray)) (\<lambda>_. ret (float32_array img))"

text \<open>Indexing with \<open>[np.newaxis, np.newaxis, :, :]\<close> is a call of the array's
  \<open>__getitem__\<close>; it puts two axes of length 1 in front.\<close>

definition newaxis2 :: "tensor \<Rightarrow> tensor" where
  "newaxis2 t = t\<lparr>shape := 1 # 1 # shape t\<rparr>"

definition new_axes :: "'v world \<Rightarrow> tensor \<Rightarrow> ('v, tensor) prog" where
  "new_axes w arr = bnd (call w (Img NewAxes)) (\<lambda>_. ret (newaxis2 arr))"

definition tf_rep_run :: "'v world \<Rightarrow> 'v \<Rightarrow> tensor \<Rightarrow> ('v, unit) prog" where
  "tf_rep_run w tf_rep x = call w (Model (TfRun tf_rep x))"

definition classify :: "'v world \<Rightarrow> 'v \<Rightarrow> string \<Rightarrow> path \<Rightarrow> ('v, unit) prog" where
  "classify w tf_rep title p =
     bnd (call w (Py (Print (Text title)))) (\<lambda>_.
     bnd (Image_open w p) (\<lambda>img.
     bnd (resize w img (28, 28)) (\<lambda>img.
     bnd (convert w img ''L'') (\<lambda>img.
     bnd (call w (Py Display)) (\<lambda>_.
     bnd (np_asarray w img) (\<lambda>arr.
     bnd (new_axes w arr) (\<lambda>x.
     bnd (tf_rep_run w tf_rep x) (\<lambda>_.
     bnd (call w (Img Argmax)) (\<lambda>_.
     call w (Py (Print Classified)))))))))))"

definition cell_run :: "'v world \<Rightarrow> 'v \<Rightarrow> ('v, unit) prog" where
  "cell_run w tf_rep =
     bnd (call w (Py (Import ''numpy''))) (\<lambda>_.
     bnd (call w (Py (Import ''IPython.display''))) (\<lambda>_.
     bnd (call w (Py (Import ''PIL''))) (\<lambda>_.
     bnd (classify w tf_rep ''Image 1:'' ''assets/two.png'') (\<lambda>_.
     classify w tf_rep ''Image 2:'' ''assets/three.png''))))"

subsection \<open>Cell 8: the TensorFlow graph\<close>

definition export_graph :: "'v world \<Rightarrow> 'v \<Rightarrow> path \<Rightarrow> ('v, unit) prog" where
  "export_graph w tf_rep p =
     bnd (call w (Model (ExportGraph tf_rep p))) (\<lambda>_. write_file p (tf_graph w tf_rep))"

definition cell_export_graph :: "'v world \<Rightarrow> 'v \<Rightarrow> ('v, unit) prog" where
  "cell_export_graph w tf_rep = export_graph w tf_rep ''output/mnist.pb''"

subsection \<open>The notebook\<close>

text \<open>The cells in the order of the notebook; a cell that raises stops the run.\<close>

definition notebook :: "'v world \<Rightarrow> ('v, unit) prog" where
  "notebook w =
     bnd (cell_define w) (\<lambda>_.
     bnd (cell_train w) (\<lambda>model.
     bnd (cell_save w model) (\<lambda>_.
     bnd (cell_export w) (\<lambda>_.
     bnd (cell_import w) (\<lambda>tf_rep.
     bnd (cell_explore w tf_rep) (\<lambda>_.
     bnd (cell_run w tf_rep) (\<lambda>_.
     cell_export_graph w tf_rep)))))))"

definition init :: "'v world \<Rightarrow> 'v state" where
  "init w = \<lparr>trace = [], files = files0 w\<rparr>"

definition run :: "'v world \<Rightarrow> (exn + unit) \<times> 'v state" where
  "run w = notebook w (init w)"

section \<open>Vocabulary for stating what a run does\<close>

subsection \<open>Logs and the treatment of exceptions\<close>

definition ok :: "'v call list \<Rightarrow> 'v event list" where
  "ok cs = map (\<lambda>c. (c, None)) cs"

definition quiet :: "'v event list \<Rightarrow> bool" where
  "quiet evs \<longleftrightarrow> (\<forall>ev\<in>set evs. snd ev = None)"

text \<open>What decides whether a call raises.  A call that reads a file raises when the
  file is not there, and \<open>datasets.MNIST\<close> without \<open>download\<close> when the data set is not
  there (\<open>missing\<close>).  For \<open>/\<close> and \<open>%\<close> it is the divisor; for every other call it is
  the world, and then the files.\<close>

fun missing :: "(path \<Rightarrow> 'v option) \<Rightarrow> 'v call \<Rightarrow> exn option" where
  "missing fs (Model (TorchLoad p)) = (if fs p = None then Some (FileNotFoundError p) else None)"
| "missing fs (Model (OnnxLoad p)) = (if fs p = None then Some (FileNotFoundError p) else None)"
| "missing fs (Img (ImageOpen p)) = (if fs p = None then Some (FileNotFoundError p) else None)"
| "missing fs (Data (MNIST dir t d tf)) =
     (if fs dir = None \<and> \<not> d then Some (RuntimeError ''Dataset not found'') else None)"
| "missing fs _ = None"

definition outcome :: "'v world \<Rightarrow> (path \<Rightarrow> 'v option) \<Rightarrow> nat \<Rightarrow> 'v call \<Rightarrow> exn option" where
  "outcome w fs k c =
     (case c of
        Py (TrueDiv n) \<Rightarrow> if n = 0 then Some ZeroDivisionError else None
      | Py (Mod n) \<Rightarrow> if n = 0 then Some ZeroDivisionError else None
      | _ \<Rightarrow> (case raises w k c of Some e \<Rightarrow> Some e | None \<Rightarrow> missing fs c))"

text \<open>The files after a call that did not raise: \<open>torch.save\<close>, \<open>torch.onnx.export\<close>
  and \<open>export_graph\<close> write the file they are given, \<open>datasets.MNIST\<close> with \<open>download\<close>
  stores the data set unless it is there, and no other call writes.  \<open>written w fs evs\<close>
  are the files after the logged calls \<open>evs\<close>, started with the files \<open>fs\<close>.\<close>

fun stores :: "'v world \<Rightarrow> (path \<Rightarrow> 'v option) \<Rightarrow> 'v call \<Rightarrow> path \<Rightarrow> 'v option" where
  "stores w fs (Model (TorchSave v p)) = fs(p \<mapsto> pickle w v)"
| "stores w fs (Model (OnnxExport m x p)) = fs(p \<mapsto> onnx_bytes w m x)"
| "stores w fs (Model (ExportGraph tf p)) = fs(p \<mapsto> tf_graph w tf)"
| "stores w fs (Data (MNIST dir t d tf)) =
     (if d \<and> fs dir = None then fs(dir \<mapsto> mnist_files w) else fs)"
| "stores w fs _ = fs"

fun written :: "'v world \<Rightarrow> (path \<Rightarrow> 'v option) \<Rightarrow> 'v event list \<Rightarrow> path \<Rightarrow> 'v option" where
  "written w fs [] = fs"
| "written w fs (ev # evs) =
     written w (if snd ev = None then stores w fs (fst ev) else fs) evs"

text \<open>The calls that may write the file at \<open>p\<close>.\<close>

definition writes :: "'v call \<Rightarrow> path \<Rightarrow> bool" where
  "writes c p \<longleftrightarrow>
     (case c of
        Model (TorchSave _ q) \<Rightarrow> q = p
      | Model (OnnxExport _ _ q) \<Rightarrow> q = p
      | Model (ExportGraph _ q) \<Rightarrow> q = p
      | Data (MNIST q _ d _) \<Rightarrow> d \<and> q = p
      | _ \<Rightarrow> False)"

text \<open>A log is exact when each of its calls is logged with the outcome that the world,
  the divisor or the files at that moment give it: the \<open>k\<close>-th call of the log raises
  what it is logged with, and does not raise if it is logged without an exception.\<close>

fun exact :: "'v world \<Rightarrow> (path \<Rightarrow> 'v option) \<Rightarrow> nat \<Rightarrow> 'v event list \<Rightarrow> bool" where
  "exact w fs k [] = True"
| "exact w fs k (ev # evs) =
     (snd ev = outcome w fs k (fst ev) \<and> exact w (written w fs [ev]) (Suc k) evs)"

text \<open>A call with nothing special about it: it raises when the world says so and only
  then, writes no file, and is not the \<open>__enter__\<close> or \<open>__exit__\<close> of \<open>torch.no_grad()\<close>.\<close>

fun plain :: "'v call \<Rightarrow> bool" where
  "plain (Py (TrueDiv _)) = False"
| "plain (Py (Mod _)) = False"
| "plain (Torch NoGradEnter) = False"
| "plain (Torch NoGradExit) = False"
| "plain (Data (MNIST _ _ _ _)) = False"
| "plain (Img (ImageOpen _)) = False"
| "plain (Model (TorchSave _ _)) = False"
| "plain (Model (TorchLoad _)) = False"
| "plain (Model (OnnxExport _ _ _)) = False"
| "plain (Model (OnnxLoad _)) = False"
| "plain (Model (ExportGraph _ _)) = False"
| "plain _ = True"

text \<open>Whether the log \<open>evs\<close> ends inside the block of \<open>with torch.no_grad()\<close>, given
  whether it starts inside: \<open>__enter__\<close> opens the block when it returns, and \<open>__exit__\<close>
  closes it.\<close>

fun inside :: "bool \<Rightarrow> 'v event list \<Rightarrow> bool" where
  "inside b [] = b"
| "inside b (ev # evs) =
     inside (if fst ev = Torch NoGradExit then False
             else if ev = (Torch NoGradEnter, None) then True else b) evs"

definition is_with :: "'v call \<Rightarrow> bool" where
  "is_with c \<longleftrightarrow> c = Torch NoGradEnter \<or> c = Torch NoGradExit"

text \<open>How a log can end with the exception \<open>e\<close>.  Either its last call raised \<open>e\<close>,
  after calls that all returned, and that call was not inside the block of a \<open>with\<close>
  (unless it is the \<open>__exit__\<close> of the block itself).  Or a call inside the block raised
  \<open>e0\<close>, after calls that all returned, and the last call of the log is the \<open>__exit__\<close> of
  the block: then \<open>e\<close> is \<open>e0\<close> if \<open>__exit__\<close> returned, and what \<open>__exit__\<close> raised if it
  raised.\<close>

definition aborted :: "exn \<Rightarrow> 'v event list \<Rightarrow> bool" where
  "aborted e evs \<longleftrightarrow>
     (\<exists>pre c. evs = pre @ [(c, Some e)] \<and> quiet pre \<and>
        (inside False pre \<longrightarrow> c = Torch NoGradExit))"

definition aborted_in_with :: "exn \<Rightarrow> 'v event list \<Rightarrow> bool" where
  "aborted_in_with e evs \<longleftrightarrow>
     (\<exists>pre c e0 r. evs = pre @ [(c, Some e0), (Torch NoGradExit, r)] \<and> quiet pre \<and>
        inside False pre \<and> c \<noteq> Torch NoGradExit \<and>
        e = (case r of None \<Rightarrow> e0 | Some e1 \<Rightarrow> e1))"

text \<open>The envelope of a part of the notebook.  Whatever the outcome \<open>r\<close> of running it
  from the state \<open>s\<close> to the state \<open>s'\<close>: the log grows by some calls \<open>evs\<close>; if it
  returned, none of them raised and no \<open>with\<close> block is left open, and if it raised \<open>e\<close>,
  the log ends with \<open>e\<close> in one of the two ways above; the log is exact; each call
  satisfies \<open>Q\<close>; and the files are the ones that the logged calls wrote.  A strict
  part has no \<open>with\<close> block.\<close>

definition outcome_ok :: "bool \<Rightarrow> (exn + 'a) \<Rightarrow> 'v event list \<Rightarrow> bool" where
  "outcome_ok strict r evs \<longleftrightarrow>
     (strict \<longrightarrow> (\<forall>ev\<in>set evs. \<not> is_with (fst ev))) \<and>
     (case r of
        Inr _ \<Rightarrow> quiet evs \<and> \<not> inside False evs
      | Inl e \<Rightarrow> aborted e evs \<or> (\<not> strict \<and> aborted_in_with e evs))"

definition step_ok ::
  "'v world \<Rightarrow> bool \<Rightarrow> ('v call \<Rightarrow> bool) \<Rightarrow> 'v state \<Rightarrow> (exn + 'a) \<Rightarrow> 'v state \<Rightarrow> 'v event list \<Rightarrow> bool" where
  "step_ok w strict Q s r s' evs \<longleftrightarrow>
     trace s' = trace s @ evs \<and> outcome_ok strict r evs \<and>
     exact w (files s) (length (trace s)) evs \<and>
     (\<forall>ev\<in>set evs. Q (fst ev)) \<and>
     files s' = written w (files s) evs"

definition env :: "'v world \<Rightarrow> bool \<Rightarrow> ('v call \<Rightarrow> bool) \<Rightarrow> ('v, 'a) prog \<Rightarrow> bool" where
  "env w strict Q m \<longleftrightarrow> (\<forall>s r s'. m s = (r, s') \<longrightarrow> (\<exists>evs. step_ok w strict Q s r s' evs))"

definition returns :: "('v, 'a) prog \<Rightarrow> ('a \<Rightarrow> bool) \<Rightarrow> bool" where
  "returns m R \<longleftrightarrow> (\<forall>s a s'. m s = (Inr a, s') \<longrightarrow> R a)"


subsection \<open>The stage of a call, and the arguments as the notebook writes them\<close>

text \<open>The six stages of the pipeline: 1 model definition, 2 training and evaluation,
  3 checkpoint, 4 export to ONNX, 5 import into TensorFlow, 6 inference and export of
  the graph.  \<open>stage_of\<close> gives the stage of a call that occurs in one stage only; the
  constructor calls of \<open>Net()\<close>, which runs in stage 2 and again in stage 4, have
  none.\<close>

fun py_stage :: "py_call \<Rightarrow> nat option" where
  "py_stage (Import n) =
     (if n \<in> {''torch'', ''torch.nn'', ''torch.nn.functional''} then Some 1
      else if n \<in> {''argparse'', ''torch.optim'', ''torchvision''} then Some 2
      else if n = ''torch.autograd'' then Some 4
      else if n \<in> {''onnx'', ''onnx_tf.backend''} then Some 5
      else if n \<in> {''numpy'', ''IPython.display'', ''PIL''} then Some 6
      else None)"
| "py_stage (DefineClass _) = Some 1"
| "py_stage (Len _) = Some 2"
| "py_stage (TrueDiv _) = Some 2"
| "py_stage (Mod _) = Some 2"
| "py_stage (Print (TrainStatus _ _)) = Some 2"
| "py_stage (Print TestSummary) = Some 2"
| "py_stage (Print Inputs) = Some 5"
| "py_stage (Print Outputs) = Some 5"
| "py_stage (Print TensorDict) = Some 5"
| "py_stage (Print Classified) = Some 6"
| "py_stage (Print (Text t)) =
     (if t = ''tensor_dict:'' then Some 5
      else if t \<in> {''Image 1:'', ''Image 2:''} then Some 6
      else None)"
| "py_stage Display = Some 6"

fun torch_stage :: "torch_call \<Rightarrow> nat option" where
  "torch_stage (Randn _) = Some 4"
| "torch_stage Variable = Some 4"
| "torch_stage _ = Some 2"

fun module_stage :: "module_call \<Rightarrow> nat option" where
  "module_stage ModuleInit = None"
| "module_stage (LayerInit _ _) = None"
| "module_stage StateDict = Some 3"
| "module_stage _ = Some 2"

fun model_stage :: "'v model_call \<Rightarrow> nat option" where
  "model_stage (TorchSave _ _) = Some 3"
| "model_stage (TorchLoad _) = Some 4"
| "model_stage (LoadStateDict _) = Some 4"
| "model_stage (OnnxExport _ _ _) = Some 4"
| "model_stage (OnnxLoad _) = Some 5"
| "model_stage (Prepare _) = Some 5"
| "model_stage (TfProperty _ _) = Some 5"
| "model_stage (TfRun _ _) = Some 6"
| "model_stage (ExportGraph _ _) = Some 6"

fun stage_of :: "'v call \<Rightarrow> nat option" where
  "stage_of (Py c) = py_stage c"
| "stage_of (Arg _) = Some 2"
| "stage_of (Torch c) = torch_stage c"
| "stage_of (Module c) = module_stage c"
| "stage_of (Tensor _) = Some 2"
| "stage_of (Data _) = Some 2"
| "stage_of (Img _) = Some 6"
| "stage_of (Model c) = model_stage c"

definition stage_ok :: "nat \<Rightarrow> 'v call \<Rightarrow> bool" where
  "stage_ok k c \<longleftrightarrow> stage_of c = None \<or> stage_of c = Some k"

text \<open>A float that is the value of a byte: one of 0, 1, ..., 255.\<close>

definition is_byte :: "real \<Rightarrow> bool" where
  "is_byte v \<longleftrightarrow> (\<exists>b :: 8 word. v = real (unat b))"

text \<open>The paths, shapes and transforms that the notebook passes to the calls that take
  them.\<close>

fun as_written :: "'v call \<Rightarrow> bool" where
  "as_written (Data (MNIST p t d tf)) = (p = ''../data'' \<and> tf = mnist_transform \<and> (d \<longrightarrow> t))"
| "as_written (Arg (ParseArgs argv)) = (argv = [''--epochs'', ''60'', ''--log-interval'', ''300''])"
| "as_written (Model (TorchSave _ p)) = (p = ''output/mnist.pth'')"
| "as_written (Model (TorchLoad p)) = (p = ''output/mnist.pth'')"
| "as_written (Model (OnnxExport _ x p)) = (p = ''output/mnist.onnx'' \<and> shape x = [1, 1, 28, 28])"
| "as_written (Model (OnnxLoad p)) = (p = ''output/mnist.onnx'')"
| "as_written (Model (TfRun _ x)) = (shape x = [1, 1, 28, 28] \<and> list_all is_byte (elems x))"
| "as_written (Model (ExportGraph _ p)) = (p = ''output/mnist.pb'')"
| "as_written (Img (ImageOpen p)) = (p = ''assets/two.png'' \<or> p = ''assets/three.png'')"
| "as_written _ = True"

definition cell_call :: "nat \<Rightarrow> 'v call \<Rightarrow> bool" where
  "cell_call k c \<longleftrightarrow> stage_ok k c \<and> as_written c"

subsection \<open>The calls of a part of the notebook that runs to its end\<close>

text \<open>\<open>ok cs\<close> is the log of the calls \<open>cs\<close> when none of them raises, and \<open>after s cs\<close>
  the state \<open>s\<close> with that log appended.  A call at position \<open>k\<close> of the log goes
  through (\<open>call_ok\<close>) when the world does not make it raise; a division \<open>/\<close> or \<open>%\<close>
  goes through when the divisor is not zero.  \<open>clear_from w s cs\<close>: started in \<open>s\<close>, each of the
  calls \<open>cs\<close> goes through.\<close>

definition after :: "'v state \<Rightarrow> 'v call list \<Rightarrow> 'v state" where
  "after s cs = s\<lparr>trace := trace s @ ok cs\<rparr>"

definition call_ok :: "'v world \<Rightarrow> nat \<Rightarrow> 'v call \<Rightarrow> bool" where
  "call_ok w k c \<longleftrightarrow>
     (case c of Py (TrueDiv n) \<Rightarrow> n \<noteq> 0 | Py (Mod n) \<Rightarrow> n \<noteq> 0 | _ \<Rightarrow> raises w k c = None)"

fun clear_from :: "'v world \<Rightarrow> 'v state \<Rightarrow> 'v call list \<Rightarrow> bool" where
  "clear_from w s [] = True"
| "clear_from w s (c # cs) = (call_ok w (length (trace s)) c \<and> clear_from w (after s [c]) cs)"

text \<open>The parameters after the calls \<open>cs\<close>, the first of them at position \<open>k\<close> of the
  log: each \<open>optimizer.step()\<close> replaces them by what the library computes, and no
  other call touches them.\<close>

fun replay :: "'v world \<Rightarrow> nat \<Rightarrow> 'v call list \<Rightarrow> 'v \<Rightarrow> 'v" where
  "replay w k [] v = v"
| "replay w k (c # cs) v =
     replay w (Suc k) cs (if c = Torch OptimizerStep then step_params w k v else v)"

definition Net_init_calls :: "'v call list" where
  "Net_init_calls =
     [Module ModuleInit,
      Module (LayerInit ''conv1'' (Conv2d 1 10 5)),
      Module (LayerInit ''conv2'' (Conv2d 10 20 5)),
      Module (LayerInit ''conv2_drop'' Dropout2d),
      Module (LayerInit ''fc1'' (Linear 320 50)),
      Module (LayerInit ''fc2'' (Linear 50 10))]"

definition cell_define_calls :: "'v call list" where
  "cell_define_calls =
     [Py (Import ''torch''), Py (Import ''torch.nn''), Py (Import ''torch.nn.functional''),
      Py (DefineClass ''Net'')]"

text \<open>The operations of \<open>forward\<close> in training mode and in evaluation mode.\<close>

definition forward_in :: "bool \<Rightarrow> fop list" where
  "forward_in mode = forward \<lparr>params = (), training = mode\<rparr>"

definition print_train_status_calls :: "'v world \<Rightarrow> nat \<Rightarrow> nat \<Rightarrow> 'v call list" where
  "print_train_status_calls w epoch batch_idx =
     [Py (Len ''data''), Py (Len ''train_loader.dataset''), Py (Len ''train_loader''),
      Py (TrueDiv (len_train_loader w)), Tensor Item, Py (Print (TrainStatus epoch batch_idx))]"

definition train_batch_calls ::
  "'v world \<Rightarrow> namespace \<Rightarrow> string \<Rightarrow> nat \<Rightarrow> nat \<Rightarrow> 'v call list" where
  "train_batch_calls w a device epoch batch_idx =
     [Tensor (TensorTo device), Tensor (TensorTo device),
      Torch ZeroGrad,
      Module (ModuleCall (forward_in True)),
      Torch (NllLoss None),
      Tensor Backward,
      Torch OptimizerStep,
      Py (Mod (log_interval a))]
     @ (if batch_idx mod log_interval a = 0
        then print_train_status_calls w epoch batch_idx else [])"

definition for_batches_calls :: "loader \<Rightarrow> nat \<Rightarrow> (nat \<Rightarrow> 'v call list) \<Rightarrow> 'v call list" where
  "for_batches_calls l n body_calls =
     Data (LoaderIter l)
     # concat (map (\<lambda>i. Data (NextBatch l i) # body_calls i) [0..<n])
     @ [Data (NextBatch l n)]"

definition train_calls :: "'v world \<Rightarrow> namespace \<Rightarrow> string \<Rightarrow> nat \<Rightarrow> 'v call list" where
  "train_calls w a device epoch =
     Module ModelTrain
     # for_batches_calls TrainLoader (train_batches w) (train_batch_calls w a device epoch)"

definition test_batch_calls :: "string \<Rightarrow> 'v call list" where
  "test_batch_calls device =
     [Tensor (TensorTo device), Tensor (TensorTo device),
      Module (ModuleCall (forward_in False)),
      Torch (NllLoss (Some ''sum'')), Tensor Item,
      Tensor TensorMax, Tensor (GetItem 1), Tensor ViewAs, Tensor TensorEq, Tensor TensorSum,
      Tensor Item]"

definition test_calls :: "'v world \<Rightarrow> string \<Rightarrow> 'v call list" where
  "test_calls w device =
     [Module ModelEval, Torch NoGradInit, Torch NoGradEnter]
     @ for_batches_calls TestLoader (test_batches w) (\<lambda>_. test_batch_calls device)
     @ [Torch NoGradExit,
        Py (Len ''test_loader.dataset''), Py (TrueDiv (len_test_dataset w)),
        Py (Len ''test_loader.dataset''), Py (Len ''test_loader.dataset''),
        Py (TrueDiv (len_test_dataset w)),
        Py (Print TestSummary)]"

definition epoch_calls :: "'v world \<Rightarrow> string \<Rightarrow> nat \<Rightarrow> 'v call list" where
  "epoch_calls w device epoch = train_calls w args device epoch @ test_calls w device"

definition make_parser_calls :: "'v call list" where
  "make_parser_calls =
     [Arg (ArgumentParser ''PyTorch MNIST Example''),
      Arg (AddArgument ''--batch-size'' (IntVal 64)),
      Arg (AddArgument ''--test-batch-size'' (IntVal 1000)),
      Arg (AddArgument ''--epochs'' (IntVal 10)),
      Arg (AddArgument ''--lr'' (FloatVal 0.01)),
      Arg (AddArgument ''--momentum'' (FloatVal 0.5)),
      Arg (AddArgument ''--no-cuda'' (BoolVal False)),
      Arg (AddArgument ''--seed'' (IntVal 1)),
      Arg (AddArgument ''--log-interval'' (IntVal 10))]"

definition make_transform_calls :: "'v call list" where
  "make_transform_calls =
     [Data (TransformInit ToTensor), Data (TransformInit (Normalize 0.1307 0.3081)),
      Data (ComposeInit mnist_transform)]"

definition device_of :: "'v world \<Rightarrow> string" where
  "device_of w = (if cuda w then ''cuda'' else ''cpu'')"

definition kwargs_of :: "'v world \<Rightarrow> kwarg list" where
  "kwargs_of w = (if cuda w then [NumWorkers 1, PinMemory True] else [])"

definition cell_train_setup_calls :: "'v world \<Rightarrow> 'v call list" where
  "cell_train_setup_calls w =
     [Py (Import ''argparse''), Py (Import ''torch.optim''), Py (Import ''torchvision'')]
     @ make_parser_calls
     @ [Arg (ParseArgs [''--epochs'', ''60'', ''--log-interval'', ''300'']),
        Torch CudaIsAvailable, Torch (ManualSeed 1), Torch (TorchDevice (device_of w))]
     @ make_transform_calls
     @ [Data (MNIST ''../data'' True True mnist_transform),
        Data (DataLoader TrainLoader 64 True (kwargs_of w))]
     @ make_transform_calls
     @ [Data (MNIST ''../data'' False False mnist_transform),
        Data (DataLoader TestLoader 1000 True (kwargs_of w))]
     @ Net_init_calls
     @ [Module (ModuleTo (device_of w)), Module Parameters, Torch (SGDInit 0.01 0.5)]"

definition cell_train_calls :: "'v world \<Rightarrow> 'v call list" where
  "cell_train_calls w =
     cell_train_setup_calls w @ concat (map (epoch_calls w (device_of w)) [1..<61])"

definition cell_save_calls :: "'v \<Rightarrow> 'v call list" where
  "cell_save_calls v = [Module StateDict, Model (TorchSave v ''output/mnist.pth'')]"

text \<open>The calls of cell 4 when \<open>sd\<close> is the state dictionary that \<open>torch.load\<close>
  returns and \<open>x\<close> the dummy input; the module it exports is a new \<open>Net\<close> with the
  loaded parameters.\<close>

definition cell_export_calls :: "'v \<Rightarrow> tensor \<Rightarrow> 'v call list" where
  "cell_export_calls sd x =
     Py (Import ''torch.autograd'')
     # Net_init_calls
     @ [Model (TorchLoad ''output/mnist.pth''),
        Model (LoadStateDict sd),
        Torch (Randn [1, 1, 28, 28]),
        Torch Variable,
        Model (OnnxExport \<lparr>params = sd, training = True\<rparr> x ''output/mnist.onnx'')]"

text \<open>The calls of cell 5 when \<open>m\<close> is the model that \<open>onnx.load\<close> returns.\<close>

definition cell_import_calls :: "'v \<Rightarrow> 'v call list" where
  "cell_import_calls m =
     [Py (Import ''onnx''), Py (Import ''onnx_tf.backend''),
      Model (OnnxLoad ''output/mnist.onnx''), Model (Prepare m)]"

text \<open>The dummy input that cell 4 makes when it starts in a state with \<open>k\<close> calls logged.\<close>

definition dummy_input :: "'v world \<Rightarrow> nat \<Rightarrow> tensor" where
  "dummy_input w k = \<lparr>shape = [1, 1, 28, 28], elems = randn w (k + 9) [1, 1, 28, 28]\<rparr>"


text \<open>Cell 4 starts after the 4 calls of cell 1, the calls of cell 2 and the 2 calls of
  cell 3.\<close>

definition dummy_of :: "'v world \<Rightarrow> tensor" where
  "dummy_of w = dummy_input w (length (cell_train_calls w) + 6)"

text \<open>What the later cells work with when \<open>v\<close> are the parameters that cell 3 saved:
  the state dictionary read back from the checkpoint, the content of the ONNX file, and
  the TensorFlow representation of the ONNX model.\<close>

definition loaded_params :: "'v world \<Rightarrow> 'v \<Rightarrow> 'v" where
  "loaded_params w v = unpickle w (pickle w v)"

definition onnx_file :: "'v world \<Rightarrow> 'v \<Rightarrow> 'v" where
  "onnx_file w v = onnx_bytes w \<lparr>params = loaded_params w v, training = True\<rparr> (dummy_of w)"

definition tf_rep_of :: "'v world \<Rightarrow> 'v \<Rightarrow> 'v" where
  "tf_rep_of w v = tf_prepare w (onnx_parse w (onnx_file w v))"

definition cell_explore_calls :: "'v \<Rightarrow> 'v call list" where
  "cell_explore_calls tf_rep =
     [Model (TfProperty tf_rep ''inputs''), Py (Print Inputs),
      Model (TfProperty tf_rep ''outputs''), Py (Print Outputs),
      Py (Print (Text ''tensor_dict:'')),
      Model (TfProperty tf_rep ''tensor_dict''), Py (Print TensorDict)]"

text \<open>The array that cell 7 hands to \<open>tf_rep.run\<close> for an image file of content \<open>v\<close>.\<close>

definition sample_input :: "'v world \<Rightarrow> 'v \<Rightarrow> tensor" where
  "sample_input w v =
     newaxis2 (float32_array (converted w (resized w (pil_open w v) (28, 28)) ''L''))"

definition classify_calls :: "'v \<Rightarrow> string \<Rightarrow> path \<Rightarrow> tensor \<Rightarrow> 'v call list" where
  "classify_calls tf_rep title p x =
     [Py (Print (Text title)),
      Img (ImageOpen p), Img (ImageResize (28, 28)), Img (ImageConvert ''L''),
      Py Display,
      Img NpAsarray, Img NewAxes, Model (TfRun tf_rep x),
      Img Argmax, Py (Print Classified)]"

definition cell_run_calls :: "'v \<Rightarrow> tensor \<Rightarrow> tensor \<Rightarrow> 'v call list" where
  "cell_run_calls tf_rep x1 x2 =
     [Py (Import ''numpy''), Py (Import ''IPython.display''), Py (Import ''PIL'')]
     @ classify_calls tf_rep ''Image 1:'' ''assets/two.png'' x1
     @ classify_calls tf_rep ''Image 2:'' ''assets/three.png'' x2"

definition cell_export_graph_calls :: "'v \<Rightarrow> 'v call list" where
  "cell_export_graph_calls tf_rep = [Model (ExportGraph tf_rep ''output/mnist.pb'')]"

text \<open>The files after \<open>datasets.MNIST(dir, download=True)\<close>.\<close>

definition with_dataset :: "'v world \<Rightarrow> (path \<Rightarrow> 'v option) \<Rightarrow> path \<Rightarrow> 'v option" where
  "with_dataset w fs = (case fs ''../data'' of None \<Rightarrow> fs(''../data'' \<mapsto> mnist_files w) | Some _ \<Rightarrow> fs)"

text \<open>The calls of the eight cells, for trained parameters \<open>v\<close> and sample images of
  contents \<open>i1\<close> and \<open>i2\<close>; and the calls of the first \<open>k\<close> cells.\<close>

definition cells :: "'v world \<Rightarrow> 'v \<Rightarrow> 'v \<Rightarrow> 'v \<Rightarrow> 'v call list list" where
  "cells w v i1 i2 =
     [cell_define_calls,
      cell_train_calls w,
      cell_save_calls v,
      cell_export_calls (loaded_params w v) (dummy_of w),
      cell_import_calls (onnx_parse w (onnx_file w v)),
      cell_explore_calls (tf_rep_of w v),
      cell_run_calls (tf_rep_of w v) (sample_input w i1) (sample_input w i2),
      cell_export_graph_calls (tf_rep_of w v)]"

definition cells_upto :: "nat \<Rightarrow> 'v world \<Rightarrow> 'v \<Rightarrow> 'v \<Rightarrow> 'v \<Rightarrow> 'v call list" where
  "cells_upto k w v i1 i2 = concat (take k (cells w v i1 i2))"

definition notebook_calls :: "'v world \<Rightarrow> 'v \<Rightarrow> 'v \<Rightarrow> 'v \<Rightarrow> 'v call list" where
  "notebook_calls w v i1 i2 = concat (cells w v i1 i2)"

text \<open>The files at the end of a run that completes.\<close>

definition final_files :: "'v world \<Rightarrow> 'v \<Rightarrow> path \<Rightarrow> 'v option" where
  "final_files w v =
     (with_dataset w (files0 w))
       (''output/mnist.pth'' \<mapsto> pickle w v,
        ''output/mnist.onnx'' \<mapsto> onnx_file w v,
        ''output/mnist.pb'' \<mapsto> tf_graph w (tf_rep_of w v))"

text \<open>The stage that each cell belongs to.\<close>

definition cell_stage :: "nat \<Rightarrow> nat" where
  "cell_stage k = [1, 2, 3, 4, 5, 5, 6, 6] ! (k - 1)"

text \<open>The module \<open>m\<close> in state \<open>s\<close> is what \<open>m0\<close> in state \<open>s0\<close> has become: it is in
  training mode, and its parameters are those of \<open>m0\<close> after the calls logged since.\<close>

definition tracked :: "'v world \<Rightarrow> 'v state \<Rightarrow> 'v net \<Rightarrow> 'v state \<Rightarrow> 'v net \<Rightarrow> bool" where
  "tracked w s0 m0 s m \<longleftrightarrow>
     training m \<and>
     (\<exists>cs. trace s = trace s0 @ ok cs \<and>
        params m = replay w (length (trace s0)) cs (params m0))"



text \<open>The calls of \<open>torch.onnx.export\<close> among some events: there is at most one, and it
  exports a module in training mode with the parameters \<open>sd\<close>.\<close>

fun is_export :: "'v call \<Rightarrow> bool" where
  "is_export (Model (OnnxExport _ _ _)) = True"
| "is_export _ = False"

definition exports_of :: "'v \<Rightarrow> 'v event list \<Rightarrow> bool" where
  "exports_of sd evs \<longleftrightarrow>
     length (filter (is_export \<circ> fst) evs) \<le> 1 \<and>
     (\<forall>ev\<in>set evs. is_export (fst ev) \<longrightarrow>
        (\<exists>x. fst ev = Model (OnnxExport \<lparr>params = sd, training = True\<rparr> x ''output/mnist.onnx'')))"

definition only_export :: "'v \<Rightarrow> ('v, 'a) prog \<Rightarrow> 'v state \<Rightarrow> bool" where
  "only_export sd m s \<longleftrightarrow>
     (\<forall>r s'. m s = (r, s') \<longrightarrow> (\<exists>evs. trace s' = trace s @ evs \<and> exports_of sd evs))"


text \<open>The files after the first \<open>k\<close> cells.\<close>

definition files_after :: "nat \<Rightarrow> 'v world \<Rightarrow> 'v \<Rightarrow> path \<Rightarrow> 'v option" where
  "files_after k w v =
     (if k < 2 then files0 w
      else if k = 2 then with_dataset w (files0 w)
      else if k = 3 then (with_dataset w (files0 w))(''output/mnist.pth'' \<mapsto> pickle w v)
      else if k < 8 then
        (with_dataset w (files0 w))
          (''output/mnist.pth'' \<mapsto> pickle w v, ''output/mnist.onnx'' \<mapsto> onnx_file w v)
      else final_files w v)"

text \<open>A run that stops in cell \<open>k + 1\<close>: the first \<open>k\<close> cells have run to their end, and
  the events \<open>evs\<close> of cell \<open>k + 1\<close> end with the exception that the run ends with.\<close>

definition stopped_in ::
  "'v world \<Rightarrow> nat \<Rightarrow> (exn + unit) \<Rightarrow> 'v state \<Rightarrow> 'v \<Rightarrow> 'v \<Rightarrow> 'v \<Rightarrow> 'v event list \<Rightarrow> bool" where
  "stopped_in w k r s' v i1 i2 evs \<longleftrightarrow>
     k < 8 \<and>
     trace s' = ok (cells_upto k w v i1 i2) @ evs \<and>
     (\<exists>e. r = Inl e \<and> (aborted e evs \<or> aborted_in_with e evs)) \<and>
     exact w (files_after k w v) (length (cells_upto k w v i1 i2)) evs \<and>
     (\<forall>ev\<in>set evs. cell_call (cell_stage (Suc k)) (fst ev)) \<and>
     files s' = written w (files_after k w v) evs \<and>
     (k = 3 \<longrightarrow> exports_of (loaded_params w v) evs)"

text \<open>A run that completes: all eight cells have run to their end.\<close>

definition completed :: "'v world \<Rightarrow> (exn + unit) \<Rightarrow> 'v state \<Rightarrow> 'v \<Rightarrow> 'v \<Rightarrow> 'v \<Rightarrow> bool" where
  "completed w r s' v i1 i2 \<longleftrightarrow>
     r = Inr () \<and>
     trace s' = ok (notebook_calls w v i1 i2) \<and>
     clear_from w (init w) (notebook_calls w v i1 i2) \<and>
     files0 w ''assets/two.png'' = Some i1 \<and> files0 w ''assets/three.png'' = Some i2 \<and>
     files s' = final_files w v"

subsection \<open>What the log says about stages, paths and inputs\<close>

text \<open>The stages of the calls of a log, in the order of the log.\<close>

fun stages :: "'v event list \<Rightarrow> nat list" where
  "stages [] = []"
| "stages (ev # evs) =
     (case stage_of (fst ev) of None \<Rightarrow> stages evs | Some n \<Rightarrow> n # stages evs)"

text \<open>The paths that a call hands to a library.\<close>

fun paths_of :: "'v call \<Rightarrow> path list" where
  "paths_of (Data (MNIST p _ _ _)) = [p]"
| "paths_of (Model (TorchSave _ p)) = [p]"
| "paths_of (Model (TorchLoad p)) = [p]"
| "paths_of (Model (OnnxExport _ _ p)) = [p]"
| "paths_of (Model (OnnxLoad p)) = [p]"
| "paths_of (Model (ExportGraph _ p)) = [p]"
| "paths_of (Img (ImageOpen p)) = [p]"
| "paths_of _ = []"

definition paths_in :: "'v event list \<Rightarrow> path set" where
  "paths_in evs = (\<Union>ev\<in>set evs. set (paths_of (fst ev)))"

fun is_save :: "'v call \<Rightarrow> bool" where
  "is_save (Model (TorchSave _ _)) = True"
| "is_save _ = False"

fun is_tf_run :: "'v call \<Rightarrow> bool" where
  "is_tf_run (Model (TfRun _ _)) = True"
| "is_tf_run _ = False"

text \<open>What \<open>ToTensor\<close> and \<open>Normalize(mean, std)\<close> of torchvision do to the value of a
  pixel, in exact arithmetic: the first scales a byte to the interval from 0 to 1, the
  second subtracts the mean and divides by the standard deviation.\<close>

fun apply_transform :: "transform \<Rightarrow> real \<Rightarrow> real" where
  "apply_transform ToTensor x = x / 255"
| "apply_transform (Normalize mean std) x = (x - mean) / std"

definition transformed :: "transform list \<Rightarrow> real \<Rightarrow> real" where
  "transformed tf x = fold apply_transform tf x"

subsection \<open>Two worlds to run the notebook in\<close>

text \<open>A world in which no call raises: both sample images are there, the data set is
  not yet downloaded, the loaders yield two training batches and one test batch, and
  each optimizer step adds one to a parameter that starts at zero.\<close>

definition calm_world :: "nat world" where
  "calm_world =
     \<lparr>raises = (\<lambda>_ _. None),
      files0 = [''assets/two.png'' \<mapsto> 2, ''assets/three.png'' \<mapsto> 3],
      cuda = False,
      train_batches = 2, test_batches = 1,
      len_train_loader = 2, len_test_dataset = 1000,
      fresh_params = (\<lambda>_. 0), step_params = (\<lambda>_ v. Suc v),
      pickle = (\<lambda>v. v), unpickle = (\<lambda>v. v),
      randn = (\<lambda>_ _. []),
      onnx_bytes = (\<lambda>m _. params m), onnx_parse = (\<lambda>v. v),
      tf_prepare = (\<lambda>v. v), tf_graph = (\<lambda>v. v),
      mnist_files = 0,
      pil_open = (\<lambda>v. \<lparr>im_size = (1, 1), im_mode = ''L'', im_raster = [word_of_nat v]\<rparr>),
      pil_resize = (\<lambda>img _. im_raster img),
      pil_convert = (\<lambda>img _. im_raster img)\<rparr>"

text \<open>The same world, except that the third import of cell 1 fails.\<close>

definition broken_world :: "nat world" where
  "broken_world =
     calm_world\<lparr>raises :=
       (\<lambda>k _. if k = 2 then Some (ImportError ''torch.nn.functional'') else None)\<rparr>"

definition lossy_world :: "nat world" where
  "lossy_world = calm_world\<lparr>unpickle := Suc\<rparr>"


text \<open>A world without batches in which the iterator of the test loader cannot be made:
  the call raises inside the block of \<open>with torch.no_grad()\<close>, and \<open>__exit__\<close> raises what
  \<open>x\<close> says.\<close>

definition with_world :: "exn option \<Rightarrow> nat world" where
  "with_world x =
     calm_world\<lparr>train_batches := 0, test_batches := 0,
       raises := (\<lambda>k c. if c = Data (LoaderIter TestLoader) then Some (RuntimeError ''e0'')
                        else if c = Torch NoGradExit then x else None)\<rparr>"
section \<open>How the notebook runs\<close>

lemma quiet_simps [simp]:
  "quiet []" "quiet (ev # evs) \<longleftrightarrow> snd ev = None \<and> quiet evs"
  "quiet (xs @ ys) \<longleftrightarrow> quiet xs \<and> quiet ys" "quiet (ok cs)"
  by (auto simp: quiet_def ok_def)

lemma bnd_cases:
  assumes "bnd m f s = (r, s')"
  obtains (fail) e where "m s = (Inl e, s')" "r = Inl e"
        | (succ) a s1 where "m s = (Inr a, s1)" "f a s1 = (r, s')"
  using assms by (auto simp: bnd_def split: prod.splits sum.splits)

lemma written_append: "written w fs (xs @ ys) = written w (written w fs xs) ys"
  by (induction xs arbitrary: fs) auto

lemma exact_append:
  "exact w fs k (xs @ ys) \<longleftrightarrow> exact w fs k xs \<and> exact w (written w fs xs) (k + length xs) ys"
  by (induction xs arbitrary: fs k) auto

lemma exact_single: "exact w fs k [(c, r)] \<longleftrightarrow> r = outcome w fs k c"
  by simp

lemma exact_nth:
  "exact w fs k evs \<Longrightarrow> i < length evs \<Longrightarrow>
   snd (evs ! i) = outcome w (written w fs (take i evs)) (k + i) (fst (evs ! i))"
proof (induction evs arbitrary: fs k i)
  case Nil
  then show ?case by simp
next
  case (Cons ev evs)
  show ?case
  proof (cases i)
    case 0
    with Cons.prems show ?thesis by simp
  next
    case (Suc j)
    with Cons.prems Cons.IH[of "written w fs [ev]" "Suc k" j] show ?thesis
      by (auto split: if_splits)
  qed
qed

lemma outcome_plain: "plain c \<Longrightarrow> outcome w fs k c = raises w k c"
  by (cases c rule: plain.cases) (simp_all add: outcome_def split: option.splits)

lemma stores_plain: "plain c \<Longrightarrow> stores w fs c = fs"
  by (cases c rule: plain.cases) simp_all

lemma is_with_plain: "plain c \<Longrightarrow> \<not> is_with c"
  by (auto simp: is_with_def)

lemma inside_append: "inside b (xs @ ys) = inside (inside b xs) ys"
  by (induction xs arbitrary: b) auto

lemma inside_no_with: "\<forall>ev\<in>set evs. \<not> is_with (fst ev) \<Longrightarrow> inside b evs = b"
  by (induction evs arbitrary: b) (auto simp: is_with_def)

lemma abortedI:
  "quiet pre \<Longrightarrow> inside False pre \<longrightarrow> c = Torch NoGradExit \<Longrightarrow> aborted e (pre @ [(c, Some e)])"
  unfolding aborted_def by blast

lemma aborted_append:
  assumes "quiet xs" "\<not> inside False xs" "aborted e ys"
  shows "aborted e (xs @ ys)"
proof -
  from assms(3) obtain pre c where ys: "ys = pre @ [(c, Some e)]" "quiet pre"
    "inside False pre \<longrightarrow> c = Torch NoGradExit"
    unfolding aborted_def by blast
  have "xs @ ys = (xs @ pre) @ [(c, Some e)]" using ys(1) by simp
  moreover have "quiet (xs @ pre)" using assms(1) ys(2) by simp
  moreover have "inside False (xs @ pre) \<longrightarrow> c = Torch NoGradExit"
    using assms(2) ys(3) by (simp add: inside_append)
  ultimately show ?thesis unfolding aborted_def by blast
qed

lemma aborted_in_with_append:
  assumes "quiet xs" "\<not> inside False xs" "aborted_in_with e ys"
  shows "aborted_in_with e (xs @ ys)"
proof -
  from assms(3) obtain pre c e0 r where
    ys: "ys = pre @ [(c, Some e0), (Torch NoGradExit, r)]" "quiet pre" "inside False pre"
      "c \<noteq> Torch NoGradExit" "e = (case r of None \<Rightarrow> e0 | Some e1 \<Rightarrow> e1)"
    unfolding aborted_in_with_def by blast
  have "xs @ ys = (xs @ pre) @ [(c, Some e0), (Torch NoGradExit, r)]" using ys(1) by simp
  moreover have "quiet (xs @ pre)" using assms(1) ys(2) by simp
  moreover have "inside False (xs @ pre)" using assms(2) ys(3) by (simp add: inside_append)
  ultimately show ?thesis unfolding aborted_in_with_def using ys(4,5) by blast
qed

lemma outcome_ok_append:
  assumes "outcome_ok b (Inr a) xs" "outcome_ok b r ys"
  shows "outcome_ok b r (xs @ ys)"
proof -
  from assms(1) have xs: "quiet xs" "\<not> inside False xs"
    "b \<longrightarrow> (\<forall>ev\<in>set xs. \<not> is_with (fst ev))"
    by (simp_all add: outcome_ok_def)
  from assms(2) have w: "b \<longrightarrow> (\<forall>ev\<in>set (xs @ ys). \<not> is_with (fst ev))"
    using xs(3) by (auto simp: outcome_ok_def)
  show ?thesis
  proof (cases r)
    case (Inr u)
    with assms(2) xs w show ?thesis by (simp add: outcome_ok_def inside_append)
  next
    case (Inl e)
    with assms(2) have "aborted e ys \<or> (\<not> b \<and> aborted_in_with e ys)"
      by (simp add: outcome_ok_def)
    then have "aborted e (xs @ ys) \<or> (\<not> b \<and> aborted_in_with e (xs @ ys))"
      using aborted_append[OF xs(1,2)] aborted_in_with_append[OF xs(1,2)] by blast
    with Inl w show ?thesis by (simp add: outcome_ok_def)
  qed
qed

lemma outcome_ok_weaken: "outcome_ok True r evs \<Longrightarrow> outcome_ok b r evs"
  by (cases r) (auto simp: outcome_ok_def)

lemma outcome_ok_plain:
  "plain c \<Longrightarrow> outcome_ok b (case x of None \<Rightarrow> Inr () | Some e \<Rightarrow> Inl e) [(c, x)]"
  by (cases x) (auto simp: outcome_ok_def aborted_def is_with_def)

lemma envI:
  assumes "\<And>s r s'. m s = (r, s') \<Longrightarrow> \<exists>evs. step_ok w b Q s r s' evs"
  shows "env w b Q m"
  using assms unfolding env_def by blast

lemma envE:
  assumes "env w b Q m" "m s = (r, s')"
  obtains evs where "step_ok w b Q s r s' evs"
  using assms unfolding env_def by blast

lemma step_ok_refl: "step_ok w b Q s (Inr a) s []"
  by (simp add: step_ok_def outcome_ok_def)

lemma step_ok_fail:
  "step_ok w b Q s r s' evs \<Longrightarrow> r = Inl e \<Longrightarrow> step_ok w b Q s (Inl e) s' evs"
  by (simp add: step_ok_def outcome_ok_def)

lemma step_ok_trans:
  assumes "step_ok w b Q s (Inr a) s1 xs" "step_ok w b Q s1 r s' ys"
  shows "step_ok w b Q s r s' (xs @ ys)"
  unfolding step_ok_def
proof (intro conjI)
  from assms show "trace s' = trace s @ xs @ ys" by (simp add: step_ok_def)
  from assms have "outcome_ok b (Inr a) xs" "outcome_ok b r ys" by (simp_all add: step_ok_def)
  then show "outcome_ok b r (xs @ ys)" by (rule outcome_ok_append)
  from assms show "exact w (files s) (length (trace s)) (xs @ ys)"
    by (simp add: step_ok_def exact_append)
  from assms show "\<forall>ev\<in>set (xs @ ys). Q (fst ev)" by (auto simp: step_ok_def)
  from assms show "files s' = written w (files s) (xs @ ys)"
    by (simp add: step_ok_def written_append)
qed

lemma env_ret: "env w b Q (ret a)"
  by (rule envI) (auto simp: ret_def intro: step_ok_refl)

lemma env_bnd_val:
  assumes m: "env w b Q m" and R: "returns m R" and f: "\<And>a. R a \<Longrightarrow> env w b Q (f a)"
  shows "env w b Q (bnd m f)"
proof (rule envI)
  fix s r s' assume "bnd m f s = (r, s')"
  then show "\<exists>evs. step_ok w b Q s r s' evs"
  proof (cases rule: bnd_cases)
    case (fail e)
    from m fail(1) obtain evs where "step_ok w b Q s (fst (m s)) s' evs"
      by (rule envE) (simp add: fail(1))
    then have "step_ok w b Q s (Inl e) s' evs" by (rule step_ok_fail) (simp add: fail(1))
    then show ?thesis unfolding fail(2) by (rule exI)
  next
    case (succ a s1)
    from R succ(1) have Ra: "R a" unfolding returns_def by blast
    from m succ(1) obtain xs where xs: "step_ok w b Q s (Inr a) s1 xs" by (rule envE)
    from f[OF Ra] succ(2) obtain ys where ys: "step_ok w b Q s1 r s' ys" by (rule envE)
    from xs ys have "step_ok w b Q s r s' (xs @ ys)" by (rule step_ok_trans)
    then show ?thesis by (rule exI)
  qed
qed

lemma env_bnd:
  assumes m: "env w b Q m" and f: "\<And>a. env w b Q (f a)"
  shows "env w b Q (bnd m f)"
  by (rule env_bnd_val[where R = "\<lambda>_. True"]) (simp_all add: m f returns_def)

lemma env_call: "Q c \<Longrightarrow> plain c \<Longrightarrow> env w b Q (call w c)"
  by (rule envI)
     (auto simp: call_def emit_def record_call_def step_ok_def outcome_plain stores_plain
           outcome_ok_def aborted_def is_with_plain
           split: option.splits)

lemma env_truediv: "Q (Py (TrueDiv n)) \<Longrightarrow> env w b Q (truediv n)"
  by (rule envI)
     (auto simp: truediv_def emit_def record_call_def step_ok_def outcome_def
           outcome_ok_def aborted_def is_with_def split: if_splits)

lemma env_pymod: "Q (Py (Mod n)) \<Longrightarrow> env w b Q (pymod m n)"
  by (rule envI)
     (auto simp: pymod_def bnd_def ret_def emit_def record_call_def step_ok_def outcome_def
           outcome_ok_def aborted_def is_with_def split: if_splits)

lemma env_if:
  "(c \<Longrightarrow> env w b Q m1) \<Longrightarrow> (\<not> c \<Longrightarrow> env w b Q m2) \<Longrightarrow> env w b Q (if c then m1 else m2)"
  by simp

lemma step_ok_weaken: "step_ok w True Q s r s' evs \<Longrightarrow> step_ok w b Q s r s' evs"
  by (simp add: step_ok_def outcome_ok_weaken)

lemma env_weaken: "env w True Q m \<Longrightarrow> env w b Q m"
  unfolding env_def using step_ok_weaken by blast

lemma step_ok_mono: "step_ok w b Q s r s' evs \<Longrightarrow> (\<And>c. Q c \<Longrightarrow> Q' c) \<Longrightarrow> step_ok w b Q' s r s' evs"
  by (simp add: step_ok_def)

lemma env_mono: "env w b Q m \<Longrightarrow> (\<And>c. Q c \<Longrightarrow> Q' c) \<Longrightarrow> env w b Q' m"
  unfolding env_def using step_ok_mono by blast

lemma env_for_each: "(\<And>x a. env w b Q (body x a)) \<Longrightarrow> env w b Q (for_each xs body acc)"
  by (induction xs arbitrary: acc) (auto intro: env_ret env_bnd)

lemma env_for_batches:
  "(\<And>i a. env w b Q (body i a)) \<Longrightarrow> Q (Data (LoaderIter l)) \<Longrightarrow> (\<And>i. Q (Data (NextBatch l i))) \<Longrightarrow>
   env w b Q (for_batches w l n body acc)"
  unfolding for_batches_def
  by (intro env_bnd env_call env_for_each env_ret) simp_all

lemma env_state: "(\<And>t. env w b Q (m t)) \<Longrightarrow> env w b Q (\<lambda>s. m s s)"
  unfolding env_def by blast

lemma env_read_file:
  "Q c \<Longrightarrow> c = Model (TorchLoad p) \<or> c = Model (OnnxLoad p) \<or> c = Img (ImageOpen p) \<Longrightarrow>
   env w b Q (read_file w c p)"
  by (rule envI)
     (auto simp: read_file_def record_call_def step_ok_def outcome_def
           outcome_ok_def aborted_def is_with_def
           split: option.splits)

lemma outcome_with [simp]:
  "outcome w fs k (Torch NoGradEnter) = raises w k (Torch NoGradEnter)"
  "outcome w fs k (Torch NoGradExit) = raises w k (Torch NoGradExit)"
  "outcome w fs k (Torch NoGradInit) = raises w k (Torch NoGradInit)"
  by (simp_all add: outcome_def split: option.splits)

lemma call_cases:
  assumes "call w c s = (r, s')"
  shows "s' = record_call (c, raises w (length (trace s)) c) s"
    "r = (case raises w (length (trace s)) c of None \<Rightarrow> Inr () | Some e \<Rightarrow> Inl e)"
  using assms by (auto simp: call_def emit_def)

lemma env_with_no_grad:
  assumes body: "env w True Q body"
    and Q: "Q (Torch NoGradInit)" "Q (Torch NoGradEnter)" "Q (Torch NoGradExit)"
  shows "env w False Q (with_no_grad w body)"
proof (rule envI)
  fix s r s'
  assume run: "with_no_grad w body s = (r, s')"
  let ?k = "length (trace s)"
  let ?i = "(Torch NoGradInit, None) :: 'a event"
  let ?n = "(Torch NoGradEnter, None) :: 'a event"
  show "\<exists>evs. step_ok w False Q s r s' evs"
  proof (cases "raises w ?k (Torch NoGradInit)")
    case (Some e)
    with run have "r = Inl e" "s' = record_call (Torch NoGradInit, Some e) s"
      by (simp_all add: with_no_grad_def bnd_def call_def emit_def)
    then have "step_ok w False Q s r s' [(Torch NoGradInit, Some e)]"
      using Q(1) Some
      by (simp add: step_ok_def record_call_def outcome_ok_def aborted_def)
    then show ?thesis ..
  next
    case None
    let ?s0 = "record_call ?i s"
    show ?thesis
    proof (cases "raises w (Suc ?k) (Torch NoGradEnter)")
      case (Some e)
      with run None have "r = Inl e" "s' = record_call (Torch NoGradEnter, Some e) ?s0"
        by (simp_all add: with_no_grad_def bnd_def call_def emit_def record_call_def)
      moreover have "aborted e [?i, (Torch NoGradEnter, Some e)]"
        using abortedI[of "[?i]" "Torch NoGradEnter" e] by simp
      ultimately have "step_ok w False Q s r s' [?i, (Torch NoGradEnter, Some e)]"
        using Q(1,2) Some None
        by (simp add: step_ok_def record_call_def outcome_ok_def)
      then show ?thesis ..
    next
      case Enter: None
      let ?s1 = "record_call ?n ?s0"
      obtain rb s2 where b: "body ?s1 = (rb, s2)" by (cases "body ?s1")
      from body b obtain xs where xs: "step_ok w True Q ?s1 rb s2 xs" by (rule envE)
      then have tr2: "trace s2 = trace s @ [?i, ?n] @ xs"
        and nw: "\<forall>ev\<in>set xs. \<not> is_with (fst ev)"
        and ex: "exact w (files s) (Suc (Suc ?k)) xs"
        and Qx: "\<forall>ev\<in>set xs. Q (fst ev)"
        and fs2: "files s2 = written w (files s) xs"
        by (simp_all add: step_ok_def record_call_def outcome_ok_def)
      let ?x = "raises w (length (trace s2)) (Torch NoGradExit)"
      let ?evs = "[?i, ?n] @ xs @ [(Torch NoGradExit, ?x)]"
      have l2: "length (trace s2) = Suc (Suc ?k) + length xs" using tr2 by simp
      have s': "s' = record_call (Torch NoGradExit, ?x) s2"
        and r: "r = (case rb of
                  Inr a \<Rightarrow> (case ?x of None \<Rightarrow> Inr a | Some e \<Rightarrow> Inl e)
                | Inl e \<Rightarrow> Inl (case ?x of None \<Rightarrow> e | Some e1 \<Rightarrow> e1))"
        using run None Enter b
        by (auto simp: with_no_grad_def bnd_def call_def emit_def record_call_def ret_def
            split: sum.splits option.splits)
      have ins: "inside False ([?i, ?n] @ pre) = True" if "set pre \<subseteq> set xs" for pre
      proof -
        from that nw have "\<forall>ev\<in>set pre. \<not> is_with (fst ev)" by blast
        then show ?thesis by (simp add: inside_no_with)
      qed
      have oc: "outcome_ok False r ?evs"
      proof (cases rb)
        case (Inr a)
        with xs have q: "quiet xs" by (simp add: step_ok_def outcome_ok_def)
        show ?thesis
        proof (cases ?x)
          case None
          with r Inr q show ?thesis
            by (simp add: outcome_ok_def inside_append)
        next
          case (Some e)
          have "aborted e (([?i, ?n] @ xs) @ [(Torch NoGradExit, Some e)])"
            by (rule abortedI) (simp_all add: q)
          with r Inr Some show ?thesis by (simp add: outcome_ok_def)
        qed
      next
        case (Inl e)
        with xs obtain pre c where pre: "xs = pre @ [(c, Some e)]" "quiet pre"
          by (auto simp: step_ok_def outcome_ok_def aborted_def)
        from nw pre(1) have c: "c \<noteq> Torch NoGradExit" by (auto simp: is_with_def)
        have "set pre \<subseteq> set xs" using pre(1) by auto
        from ins[OF this] have i: "inside False ([?i, ?n] @ pre)" by simp
        have "aborted_in_with (case ?x of None \<Rightarrow> e | Some e1 \<Rightarrow> e1)
                (([?i, ?n] @ pre) @ [(c, Some e), (Torch NoGradExit, ?x)])"
          unfolding aborted_in_with_def
          apply (rule exI[of _ "[?i, ?n] @ pre"], rule exI[of _ c], rule exI[of _ e],
              rule exI[of _ ?x])
          using pre(2) i c apply simp
          done
        with r Inl pre(1) show ?thesis by (simp add: outcome_ok_def)
      qed
      have "step_ok w False Q s r s' ?evs"
        unfolding step_ok_def
      proof (intro conjI)
        show "trace s' = trace s @ ?evs" using tr2 s' by (simp add: record_call_def)
        show "outcome_ok False r ?evs" by (rule oc)
        show "exact w (files s) ?k ?evs"
          using None Enter ex l2 fs2 by (simp add: exact_append)
        show "\<forall>ev\<in>set ?evs. Q (fst ev)" using Qx Q by auto
        show "files s' = written w (files s) ?evs"
          using s' fs2 by (simp add: record_call_def written_append)
      qed
      then show ?thesis ..
    qed
  qed
qed

lemma cell_call_Py [simp]:
  "cell_call k (Py c) \<longleftrightarrow> py_stage c = None \<or> py_stage c = Some k"
  by (simp add: cell_call_def stage_ok_def)

lemma cell_call_Arg [simp]:
  fixes a :: arg_call
  shows "cell_call k (Arg a :: 'v call) \<longleftrightarrow> k = 2 \<and> as_written (Arg a :: 'v call)"
  by (auto simp: cell_call_def stage_ok_def)

lemma cell_call_Torch [simp]: "cell_call k (Torch t) \<longleftrightarrow> torch_stage t = Some k"
  by (cases t) (simp_all add: cell_call_def stage_ok_def)

lemma cell_call_Module [simp]:
  "cell_call k (Module m) \<longleftrightarrow> module_stage m = None \<or> module_stage m = Some k"
  by (simp add: cell_call_def stage_ok_def)

lemma cell_call_Tensor [simp]: "cell_call k (Tensor x) \<longleftrightarrow> k = 2"
  by (auto simp: cell_call_def stage_ok_def)

lemma cell_call_Img [simp]:
  fixes i :: image_call
  shows "cell_call k (Img i :: 'v call) \<longleftrightarrow> k = 6 \<and> as_written (Img i :: 'v call)"
  by (auto simp: cell_call_def stage_ok_def)

lemma cell_call_Data [simp]:
  fixes d :: data_call
  shows "cell_call k (Data d :: 'v call) \<longleftrightarrow> k = 2 \<and> as_written (Data d :: 'v call)"
  by (auto simp: cell_call_def stage_ok_def)

lemma cell_call_Model [simp]:
  "cell_call k (Model md) \<longleftrightarrow> model_stage md = Some k \<and> as_written (Model md)"
  by (cases md) (auto simp: cell_call_def stage_ok_def)

lemmas env_intros = env_bnd env_call env_ret env_truediv env_pymod env_read_file env_if

lemma env_Net_init: "env w True (cell_call k) (Net_init w)"
  unfolding Net_init_def
  apply (intro env_bnd env_call)
       apply simp_all
  apply (rule env_state[where m = "\<lambda>t. ret \<lparr>params = fresh_params w (length (trace t)), training = True\<rparr>"])
  apply (rule env_ret)
  done

lemma env_cell_define: "env w True (cell_call 1) (cell_define w)"
  unfolding cell_define_def
  by (intro env_intros; simp)

lemma env_optimizer_step: "env w True (cell_call 2) (optimizer_step w model)"
  unfolding optimizer_step_def
  apply (rule env_state[where m = "\<lambda>t. bnd (call w (Torch OptimizerStep))
          (\<lambda>_. ret (model\<lparr>params := step_params w (length (trace t)) (params model)\<rparr>))"])
  apply (intro env_intros; simp)
  done

lemma env_print_train_status: "env w True (cell_call 2) (print_train_status w epoch i)"
  unfolding print_train_status_def
  by (intro env_intros; simp)

lemma env_train_batch: "env w True (cell_call 2) (train_batch w a device epoch i model)"
  unfolding train_batch_def
  by (intro env_intros env_optimizer_step env_print_train_status;
      simp)

lemma env_train: "env w True (cell_call 2) (train w a model device epoch)"
  unfolding train_def
  by (intro env_intros env_for_batches env_train_batch; simp)

lemma env_test_batch: "env w True (cell_call 2) (test_batch w device model)"
  unfolding test_batch_def
  by (intro env_intros; simp)

lemma env_test: "env w False (cell_call 2) (test w a model device)"
  unfolding test_def
  by (intro env_intros env_with_no_grad env_for_batches env_test_batch;
      simp)

lemma env_datasets_MNIST:
  "dir = ''../data'' \<Longrightarrow> tf = mnist_transform \<Longrightarrow> (d \<longrightarrow> t) \<Longrightarrow>
   env w True (cell_call 2) (datasets_MNIST w dir t d tf)"
  by (rule envI)
     (auto simp: datasets_MNIST_def Let_def record_call_def step_ok_def cell_call_def
           stage_ok_def outcome_def outcome_ok_def aborted_def is_with_def
           split: option.splits if_splits)

lemma returns_ret: "R a \<Longrightarrow> returns (ret a) R"
  by (simp add: returns_def ret_def)

lemma returns_bnd: "(\<And>a. returns (f a) R) \<Longrightarrow> returns (bnd m f) R"
  unfolding returns_def by (metis bnd_cases sum.distinct(1))

lemma returns_make_transform: "returns (make_transform w) (\<lambda>tf. tf = mnist_transform)"
  unfolding make_transform_def by (intro returns_bnd returns_ret) simp

lemma env_make_transform: "env w True (cell_call 2) (make_transform w)"
  unfolding make_transform_def
  by (intro env_intros; simp)

lemma env_make_parser: "env w True (cell_call 2) (make_parser w)"
  unfolding make_parser_def
  by (intro env_intros; simp)

lemma env_parse_args: "env w True (cell_call 2) (parse_args w)"
  unfolding parse_args_def
  by (intro env_intros; simp)

lemma returns_parse_args: "returns (parse_args w) (\<lambda>a. a = args)"
  unfolding parse_args_def by (intro returns_bnd returns_ret) simp

lemma env_epoch_loop: "env w False (cell_call 2) (epoch_loop w a model device)"
  unfolding epoch_loop_def
  by (rule env_for_each) (rule env_bnd, rule env_train[THEN env_weaken], rule env_test)

lemma env_cell_train: "env w False (cell_call 2) (cell_train w)"
  unfolding cell_train_def Let_def
  apply (rule env_bnd, rule env_call, simp, simp)
  apply (rule env_bnd, rule env_call, simp, simp)
  apply (rule env_bnd, rule env_call, simp, simp)
  apply (rule env_bnd, rule env_make_parser[THEN env_weaken])
  apply (rule env_bnd_val[OF env_parse_args[THEN env_weaken] returns_parse_args])
  apply (rule env_bnd, (intro env_if env_bnd env_call env_ret; simp))
  apply (rule env_bnd, rule env_call, simp, simp)
  apply (rule env_bnd, rule env_call, simp, simp)
  apply (rule env_bnd_val[OF env_make_transform[THEN env_weaken] returns_make_transform])
  apply (rule env_bnd, (rule env_datasets_MNIST[THEN env_weaken]; simp))
  apply (rule env_bnd, rule env_call, simp, simp)
  apply (rule env_bnd_val[OF env_make_transform[THEN env_weaken] returns_make_transform])
  apply (rule env_bnd, (rule env_datasets_MNIST[THEN env_weaken]; simp))
  apply (rule env_bnd, rule env_call, simp, simp)
  apply (rule env_bnd, rule env_Net_init[THEN env_weaken])
  apply (rule env_bnd, rule env_call, simp, simp)
  apply (rule env_bnd, rule env_call, simp, simp)
  apply (rule env_bnd, rule env_call, simp, simp)
  apply (rule env_epoch_loop)
  done

lemma env_torch_save:
  "p = ''output/mnist.pth'' \<Longrightarrow> env w True (cell_call 3) (torch_save w obj p)"
  by (rule envI)
     (auto simp: torch_save_def bnd_def call_def emit_def write_file_def record_call_def
           step_ok_def cell_call_def stage_ok_def outcome_def outcome_ok_def aborted_def
           is_with_def split: option.splits)

lemma env_cell_save: "env w True (cell_call 3) (cell_save w model)"
  unfolding cell_save_def
  by (intro env_intros env_torch_save; simp)

lemma env_torch_load:
  "p = ''output/mnist.pth'' \<Longrightarrow> env w True (cell_call 4) (torch_load w p)"
  unfolding torch_load_def
  by (intro env_intros; simp)

lemma env_load_state_dict: "env w True (cell_call 4) (load_state_dict w self sd)"
  unfolding load_state_dict_def
  by (intro env_intros; simp)

lemma env_torch_randn: "env w True (cell_call 4) (torch_randn w shp)"
  unfolding torch_randn_def
  apply (rule env_state[where m = "\<lambda>t. bnd (call w (Torch (Randn shp)))
          (\<lambda>_. ret \<lparr>shape = shp, elems = randn w (length (trace t)) shp\<rparr>)"])
  apply (intro env_intros; simp)
  done

lemma returns_torch_randn: "returns (torch_randn w shp) (\<lambda>x. shape x = shp)"
  by (auto simp: returns_def torch_randn_def bnd_def ret_def split: prod.splits sum.splits)

lemma env_torch_onnx_export:
  "p = ''output/mnist.onnx'' \<Longrightarrow> shape x = [1, 1, 28, 28] \<Longrightarrow>
   env w True (cell_call 4) (torch_onnx_export w model x p)"
  by (rule envI)
     (auto simp: torch_onnx_export_def bnd_def call_def emit_def write_file_def record_call_def
           step_ok_def cell_call_def stage_ok_def outcome_def outcome_ok_def aborted_def
           is_with_def split: option.splits)

lemma env_cell_export: "env w True (cell_call 4) (cell_export w)"
  unfolding cell_export_def Let_def
  apply (rule env_bnd, rule env_call, simp, simp)
  apply (rule env_bnd, rule env_Net_init)
  apply (rule env_bnd, rule env_torch_load, simp)
  apply (rule env_bnd, rule env_load_state_dict)
  apply (rule env_bnd_val[OF env_torch_randn returns_torch_randn])
  apply (rule env_bnd, rule env_call, simp, simp)
  apply (rule env_torch_onnx_export; simp)
  done

lemma env_onnx_load:
  "p = ''output/mnist.onnx'' \<Longrightarrow> env w True (cell_call 5) (onnx_load w p)"
  unfolding onnx_load_def
  by (intro env_intros; simp)

lemma env_prepare: "env w True (cell_call 5) (prepare w model)"
  unfolding prepare_def
  by (intro env_intros; simp)

lemma env_cell_import: "env w True (cell_call 5) (cell_import w)"
  unfolding cell_import_def
  by (intro env_intros env_onnx_load env_prepare; simp)

lemma env_cell_explore: "env w True (cell_call 5) (cell_explore w tf_rep)"
  unfolding cell_explore_def
  by (intro env_intros; simp)

lemma env_Image_open:
  "p = ''assets/two.png'' \<or> p = ''assets/three.png'' \<Longrightarrow>
   env w True (cell_call 6) (Image_open w p)"
  unfolding Image_open_def
  by (intro env_intros; simp)

lemma env_resize: "env w True (cell_call 6) (resize w img sz)"
  unfolding resize_def
  by (intro env_intros; simp)

lemma returns_resize: "returns (resize w img sz) (\<lambda>i. im_size i = sz)"
  unfolding resize_def by (intro returns_bnd returns_ret) (simp add: resized_def)

lemma env_convert: "env w True (cell_call 6) (convert w img m)"
  unfolding convert_def
  by (intro env_intros; simp)

lemma returns_convert: "returns (convert w img m) (\<lambda>i. im_size i = im_size img)"
  unfolding convert_def by (intro returns_bnd returns_ret) (simp add: converted_def)

lemma env_np_asarray: "env w True (cell_call 6) (np_asarray w img)"
  unfolding np_asarray_def
  by (intro env_intros; simp)

lemma returns_np_asarray:
  "returns (np_asarray w img)
     (\<lambda>t. shape t = [snd (im_size img), fst (im_size img)] \<and> list_all is_byte (elems t))"
  unfolding np_asarray_def
  by (intro returns_bnd returns_ret) (auto simp: float32_array_def list_all_iff is_byte_def)

lemma env_new_axes: "env w True (cell_call 6) (new_axes w arr)"
  unfolding new_axes_def
  by (intro env_intros; simp)

lemma returns_new_axes:
  "returns (new_axes w arr) (\<lambda>t. shape t = 1 # 1 # shape arr \<and> elems t = elems arr)"
  unfolding new_axes_def
  by (intro returns_bnd returns_ret) (simp add: newaxis2_def)

lemma env_tf_rep_run:
  "shape x = [1, 1, 28, 28] \<Longrightarrow> list_all is_byte (elems x) \<Longrightarrow>
   env w True (cell_call 6) (tf_rep_run w tf_rep x)"
  unfolding tf_rep_run_def
  by (intro env_intros; simp)

lemma env_classify:
  assumes "p = ''assets/two.png'' \<or> p = ''assets/three.png''"
    and "title = ''Image 1:'' \<or> title = ''Image 2:''"
  shows "env w True (cell_call 6) (classify w tf_rep title p)"
  unfolding classify_def
  apply (rule env_bnd)
   apply (rule env_call)
    apply (insert assms(2))[1]
    apply (erule disjE; simp)
   apply simp
  apply (rule env_bnd, rule env_Image_open, rule assms(1))
  apply (rule env_bnd_val[OF env_resize returns_resize])
  apply (rule env_bnd_val[OF env_convert returns_convert])
  apply (rule env_bnd, rule env_call, simp, simp)
  apply (rule env_bnd_val[OF env_np_asarray returns_np_asarray])
  apply (rule env_bnd_val[OF env_new_axes returns_new_axes])
  apply (rule env_bnd, (rule env_tf_rep_run; simp))
  apply (rule env_bnd, rule env_call, simp, simp)
  apply (rule env_call, simp, simp)
  done

lemma env_cell_run: "env w True (cell_call 6) (cell_run w tf_rep)"
  unfolding cell_run_def
  by (intro env_bnd env_call env_classify; simp)

lemma env_export_graph:
  "p = ''output/mnist.pb'' \<Longrightarrow> env w True (cell_call 6) (export_graph w tf_rep p)"
  by (rule envI)
     (auto simp: export_graph_def bnd_def call_def emit_def write_file_def record_call_def
           step_ok_def cell_call_def stage_ok_def outcome_def outcome_ok_def aborted_def
           is_with_def split: option.splits)

lemma env_cell_export_graph: "env w True (cell_call 6) (cell_export_graph w tf_rep)"
  unfolding cell_export_graph_def by (rule env_export_graph) simp

lemma ok_simps [simp]: "ok [] = []" "ok (c # cs) = (c, None) # ok cs" "ok (xs @ ys) = ok xs @ ok ys"
  "length (ok cs) = length cs" "map fst (ok cs) = cs"
  by (simp_all add: ok_def comp_def)

lemma after_simps [simp]:
  "after s [] = s" "after (after s xs) ys = after s (xs @ ys)"
  "trace (after s cs) = trace s @ ok cs" "files (after s cs) = files s"
  "after (s\<lparr>files := F\<rparr>) cs = (after s cs)\<lparr>files := F\<rparr>"
  by (simp_all add: after_def)

lemma clear_from_append:
  "clear_from w s (xs @ ys) \<longleftrightarrow> clear_from w s xs \<and> clear_from w (after s xs) ys"
  by (induction xs arbitrary: s) auto

lemma clear_from_files [simp]: "clear_from w (s\<lparr>files := F\<rparr>) cs = clear_from w s cs"
  by (induction cs arbitrary: s) auto

lemma bnd_Inr_iff:
  "bnd m f s = (Inr b, s') \<longleftrightarrow> (\<exists>a s1. m s = (Inr a, s1) \<and> f a s1 = (Inr b, s'))"
  by (auto simp: bnd_def split: prod.splits sum.splits)

lemma ret_Inr_iff: "ret a s = (Inr b, s') \<longleftrightarrow> b = a \<and> s' = s"
  by (auto simp: ret_def)

lemma call_Inr_iff:
  "call w c s = (Inr u, s') \<longleftrightarrow> raises w (length (trace s)) c = None \<and> s' = after s [c]"
  by (auto simp: call_def emit_def record_call_def after_def split: option.splits)

lemma truediv_Inr_iff:
  "truediv n s = (Inr u, s') \<longleftrightarrow> n \<noteq> 0 \<and> s' = after s [Py (TrueDiv n)]"
  by (auto simp: truediv_def emit_def record_call_def after_def)

lemma pymod_Inr_iff:
  "pymod m n s = (Inr r, s') \<longleftrightarrow> n \<noteq> 0 \<and> r = m mod n \<and> s' = after s [Py (Mod n)]"
  by (auto simp: pymod_def bnd_def ret_def emit_def record_call_def after_def)

lemma read_file_Inr_iff:
  "read_file w c p s = (Inr v, s') \<longleftrightarrow>
     raises w (length (trace s)) c = None \<and> files s p = Some v \<and> s' = after s [c]"
  by (auto simp: read_file_def record_call_def after_def split: option.splits)

lemma write_file_Inr_iff:
  "write_file p v s = (Inr u, s') \<longleftrightarrow> s' = s\<lparr>files := (files s)(p \<mapsto> v)\<rparr>"
  by (auto simp: write_file_def)

lemmas run_simps = bnd_Inr_iff ret_Inr_iff call_Inr_iff truediv_Inr_iff pymod_Inr_iff
  read_file_Inr_iff
  write_file_Inr_iff call_ok_def

lemma forward_in [simp]: "forward m = forward_in (training m)"
  by (simp add: forward_def forward_in_def)

lemma Net_init_iff:
  "Net_init w s = (Inr m, s') \<longleftrightarrow>
     clear_from w s Net_init_calls \<and>
     m = \<lparr>params = fresh_params w (length (trace s')), training = True\<rparr> \<and>
     s' = after s Net_init_calls"
  unfolding Net_init_def Net_init_calls_def
  by (auto simp add: run_simps)

lemma cell_define_iff:
  "cell_define w s = (Inr u, s') \<longleftrightarrow>
     clear_from w s cell_define_calls \<and> s' = after s cell_define_calls"
  unfolding cell_define_def cell_define_calls_def
  by (simp add: run_simps)

lemma print_train_status_iff:
  "print_train_status w epoch i s = (Inr u, s') \<longleftrightarrow>
     clear_from w s (print_train_status_calls w epoch i) \<and>
     s' = after s (print_train_status_calls w epoch i)"
  unfolding print_train_status_def print_train_status_calls_def
  by (simp add: run_simps)

lemma optimizer_step_iff:
  "optimizer_step w model s = (Inr m, s') \<longleftrightarrow>
     raises w (length (trace s)) (Torch OptimizerStep) = None \<and>
     m = model\<lparr>params := step_params w (length (trace s)) (params model)\<rparr> \<and>
     s' = after s [Torch OptimizerStep]"
  unfolding optimizer_step_def
  by (auto simp add: run_simps)

lemma train_batch_iff:
  "training model \<Longrightarrow>
   train_batch w a device epoch i model s = (Inr m, s') \<longleftrightarrow>
     clear_from w s (train_batch_calls w a device epoch i) \<and>
     m = model\<lparr>params :=
           replay w (length (trace s)) (train_batch_calls w a device epoch i) (params model)\<rparr> \<and>
     s' = after s (train_batch_calls w a device epoch i)"
  unfolding train_batch_def train_batch_calls_def print_train_status_calls_def
  by (auto simp add: run_simps optimizer_step_iff print_train_status_iff
        print_train_status_calls_def)

lemma test_batch_iff:
  "\<not> training model \<Longrightarrow>
   test_batch w device model s = (Inr u, s') \<longleftrightarrow>
     clear_from w s (test_batch_calls device) \<and> s' = after s (test_batch_calls device)"
  unfolding test_batch_def test_batch_calls_def
  by (simp add: run_simps)


lemma for_each_succ:
  fixes body :: "'x \<Rightarrow> 'b \<Rightarrow> ('v, 'b) prog"
  assumes body: "\<And>x a s s'. I a \<Longrightarrow>
      (\<exists>a'. body x a s = (Inr a', s')) \<longleftrightarrow> (clear_from w s (sc x) \<and> s' = after s (sc x))"
    and inv: "\<And>x a s a' s'. I a \<Longrightarrow> body x a s = (Inr a', s') \<Longrightarrow> I a'"
    and acc: "I acc"
  shows "(\<exists>a'. for_each xs body acc s = (Inr a', s')) \<longleftrightarrow>
     (clear_from w s (concat (map sc xs)) \<and> s' = after s (concat (map sc xs)))"
  using acc
proof (induction xs arbitrary: acc s)
  case Nil
  then show ?case by (auto simp: ret_Inr_iff)
next
  case (Cons x xs)
  have "(\<exists>a'. for_each (x # xs) body acc s = (Inr a', s')) \<longleftrightarrow>
      (\<exists>a1 s1. body x acc s = (Inr a1, s1) \<and> (\<exists>a'. for_each xs body a1 s1 = (Inr a', s')))"
    by (auto simp: bnd_Inr_iff)
  also have "\<dots> \<longleftrightarrow> (\<exists>a1 s1. body x acc s = (Inr a1, s1) \<and>
      clear_from w s1 (concat (map sc xs)) \<and> s' = after s1 (concat (map sc xs)))"
    using Cons.IH inv[OF Cons.prems] by blast
  also have "\<dots> \<longleftrightarrow> (clear_from w s (sc x) \<and>
      clear_from w (after s (sc x)) (concat (map sc xs)) \<and>
      s' = after (after s (sc x)) (concat (map sc xs)))"
  proof
    assume "\<exists>a1 s1. body x acc s = (Inr a1, s1) \<and>
      clear_from w s1 (concat (map sc xs)) \<and> s' = after s1 (concat (map sc xs))"
    then obtain a1 s1 where b: "body x acc s = (Inr a1, s1)"
      and r: "clear_from w s1 (concat (map sc xs))" "s' = after s1 (concat (map sc xs))"
      by blast
    from b have "\<exists>a'. body x acc s = (Inr a', s1)" by blast
    then have "clear_from w s (sc x) \<and> s1 = after s (sc x)"
      by (simp only: body[OF Cons.prems])
    with r show "clear_from w s (sc x) \<and>
      clear_from w (after s (sc x)) (concat (map sc xs)) \<and>
      s' = after (after s (sc x)) (concat (map sc xs))" by simp
  next
    assume h: "clear_from w s (sc x) \<and>
      clear_from w (after s (sc x)) (concat (map sc xs)) \<and>
      s' = after (after s (sc x)) (concat (map sc xs))"
    then have "clear_from w s (sc x) \<and> after s (sc x) = after s (sc x)" by simp
    then have "\<exists>a'. body x acc s = (Inr a', after s (sc x))"
      by (simp only: body[OF Cons.prems])
    with h show "\<exists>a1 s1. body x acc s = (Inr a1, s1) \<and>
      clear_from w s1 (concat (map sc xs)) \<and> s' = after s1 (concat (map sc xs))"
      by blast
  qed
  finally show ?case by (simp add: clear_from_append)
qed

lemma for_each_inv:
  fixes body :: "'x \<Rightarrow> 'b \<Rightarrow> ('v, 'b) prog"
  assumes step: "\<And>x a s a' s'. J s a \<Longrightarrow> body x a s = (Inr a', s') \<Longrightarrow> J s' a'"
  shows "J s acc \<Longrightarrow> for_each xs body acc s = (Inr a', s') \<Longrightarrow> J s' a'"
proof (induction xs arbitrary: acc s)
  case Nil
  then show ?case by (simp add: ret_Inr_iff)
next
  case (Cons x xs)
  from Cons.prems(2) obtain a1 s1 where b: "body x acc s = (Inr a1, s1)"
    and r: "for_each xs body a1 s1 = (Inr a', s')"
    by (auto simp: bnd_Inr_iff)
  from step[OF Cons.prems(1) b] have "J s1 a1" .
  from Cons.IH[OF this r] show ?case .
qed

lemma for_batches_succ:
  fixes body :: "nat \<Rightarrow> 'b \<Rightarrow> ('v, 'b) prog"
  assumes body: "\<And>i a s s'. I a \<Longrightarrow>
      (\<exists>a'. body i a s = (Inr a', s')) \<longleftrightarrow> (clear_from w s (sc i) \<and> s' = after s (sc i))"
    and inv: "\<And>i a s a' s'. I a \<Longrightarrow> body i a s = (Inr a', s') \<Longrightarrow> I a'"
    and acc: "I acc"
  shows "(\<exists>a'. for_batches w l n body acc s = (Inr a', s')) \<longleftrightarrow>
     (clear_from w s (for_batches_calls l n sc) \<and> s' = after s (for_batches_calls l n sc))"
proof -
  let ?body = "\<lambda>i a. bnd (call w (Data (NextBatch l i))) (\<lambda>_. body i a)"
  let ?sc = "\<lambda>i. Data (NextBatch l i) # sc i"
  have b: "(\<exists>a'. ?body i a s = (Inr a', s')) \<longleftrightarrow> (clear_from w s (?sc i) \<and> s' = after s (?sc i))"
    if "I a" for i a s s'
    using body[OF that, of i "after s [Data (NextBatch l i)]" s']
    by (simp add: run_simps)
  have i: "I a'" if "I a" "?body i a s = (Inr a', s')" for i a s a' s'
    using that inv by (auto simp: run_simps)
  have loop: "(\<exists>a'. for_each [0..<n] ?body acc s1 = (Inr a', s2)) \<longleftrightarrow>
     (clear_from w s1 (concat (map ?sc [0..<n])) \<and> s2 = after s1 (concat (map ?sc [0..<n])))"
    for s1 s2
    by (rule for_each_succ[where I = I, OF b i acc])
  have "(\<exists>a'. for_batches w l n body acc s = (Inr a', s')) \<longleftrightarrow>
     (raises w (length (trace s)) (Data (LoaderIter l)) = None \<and>
      (\<exists>s2. (\<exists>a'. for_each [0..<n] ?body acc (after s [Data (LoaderIter l)]) = (Inr a', s2)) \<and>
         raises w (length (trace s2)) (Data (NextBatch l n)) = None \<and>
         s' = after s2 [Data (NextBatch l n)]))"
    unfolding for_batches_def by (auto simp: run_simps)
  also have "\<dots> \<longleftrightarrow>
     (clear_from w s (for_batches_calls l n sc) \<and> s' = after s (for_batches_calls l n sc))"
    unfolding loop for_batches_calls_def
    by (auto simp: clear_from_append call_ok_def)
  finally show ?thesis .
qed

lemma for_batches_inv:
  fixes body :: "nat \<Rightarrow> 'b \<Rightarrow> ('v, 'b) prog"
  assumes step: "\<And>i a s a' s'. J s a \<Longrightarrow> body i a s = (Inr a', s') \<Longrightarrow> J s' a'"
    and log: "\<And>s a c. J s a \<Longrightarrow> c = Data (LoaderIter l) \<or> (\<exists>i. c = Data (NextBatch l i))
        \<Longrightarrow> J (after s [c]) a"
  shows "J s acc \<Longrightarrow> for_batches w l n body acc s = (Inr a', s') \<Longrightarrow> J s' a'"
proof -
  assume J: "J s acc" and run: "for_batches w l n body acc s = (Inr a', s')"
  let ?body = "\<lambda>i a. bnd (call w (Data (NextBatch l i))) (\<lambda>_. body i a)"
  from run obtain s2 where
    loop: "for_each [0..<n] ?body acc (after s [Data (LoaderIter l)]) = (Inr a', s2)"
    and s': "s' = after s2 [Data (NextBatch l n)]"
    unfolding for_batches_def by (auto simp: run_simps)
  have st: "J s' a'" if h: "J s a" "?body i a s = (Inr a', s')" for i a s a' s'
  proof -
    from h(2) have b: "body i a (after s [Data (NextBatch l i)]) = (Inr a', s')"
      by (auto simp: run_simps)
    from h(1) have "J (after s [Data (NextBatch l i)]) a" by (rule log) auto
    from step[OF this b] show ?thesis .
  qed
  from J have "J (after s [Data (LoaderIter l)]) acc" by (rule log) simp
  from for_each_inv[where J = J, OF st this loop] have "J s2 a'" .
  then show "J s' a'" unfolding s' by (rule log) auto
qed


lemma replay_append:
  "replay w k (xs @ ys) v = replay w (k + length xs) ys (replay w k xs v)"
  by (induction xs arbitrary: k v) auto

lemma ok_inject [simp]: "ok xs = ok ys \<longleftrightarrow> xs = ys"
  by (simp add: ok_def inj_map_eq_map inj_on_def)

lemma train_batch_succ:
  "training model \<Longrightarrow>
   (\<exists>m. train_batch w a device epoch i model s = (Inr m, s')) \<longleftrightarrow>
     (clear_from w s (train_batch_calls w a device epoch i) \<and>
      s' = after s (train_batch_calls w a device epoch i))"
  by (simp add: train_batch_iff)

lemma train_succ:
  "(\<exists>m. train w a model device epoch s = (Inr m, s')) \<longleftrightarrow>
     (clear_from w s (train_calls w a device epoch) \<and> s' = after s (train_calls w a device epoch))"
proof -
  have loop: "(\<exists>m. for_batches w TrainLoader (train_batches w) (train_batch w a device epoch)
        (model\<lparr>training := True\<rparr>) s1 = (Inr m, s2)) \<longleftrightarrow>
     (clear_from w s1 (for_batches_calls TrainLoader (train_batches w)
         (train_batch_calls w a device epoch)) \<and>
      s2 = after s1 (for_batches_calls TrainLoader (train_batches w)
         (train_batch_calls w a device epoch)))" for s1 s2
    by (rule for_batches_succ[where I = training])
       (simp_all add: train_batch_iff)
  show ?thesis
    unfolding train_def train_calls_def
    by (simp add: run_simps loop)
qed

lemma tracked_log:
  "tracked w s0 m0 s m \<Longrightarrow> c \<noteq> Torch OptimizerStep \<Longrightarrow> tracked w s0 m0 (after s [c]) m"
  unfolding tracked_def
  apply (elim conjE exE)
  subgoal for cs
    by (auto intro!: exI[of _ "cs @ [c]"] simp: replay_append)
  done

lemma tracked_train_batch:
  assumes "tracked w s0 m0 s m" "train_batch w a device epoch i m s = (Inr m', s')"
  shows "tracked w s0 m0 s' m'"
proof -
  from assms(1) obtain cs where tr: "training m" "trace s = trace s0 @ ok cs"
    "params m = replay w (length (trace s0)) cs (params m0)"
    unfolding tracked_def by blast
  let ?tb = "train_batch_calls w a device epoch i"
  from assms(2) tr(1) have m': "m' = m\<lparr>params := replay w (length (trace s)) ?tb (params m)\<rparr>"
    and s': "s' = after s ?tb"
    by (simp_all add: train_batch_iff)
  have "trace s' = trace s0 @ ok (cs @ ?tb)" using tr(2) s' by simp
  moreover have "params m' = replay w (length (trace s0)) (cs @ ?tb) (params m0)"
    using tr m' by (simp add: replay_append)
  moreover have "training m'" using tr(1) m' by simp
  ultimately show ?thesis unfolding tracked_def by blast
qed

lemma train_result:
  assumes "train w a model device epoch s = (Inr m', s')"
  shows "training m'"
    and "params m' = replay w (length (trace s)) (train_calls w a device epoch) (params model)"
proof -
  let ?m = "model\<lparr>training := True\<rparr>"
  let ?s1 = "after s [Module ModelTrain]"
  from assms have loop: "for_batches w TrainLoader (train_batches w)
      (train_batch w a device epoch) ?m ?s1 = (Inr m', s')"
    unfolding train_def by (auto simp: run_simps)
  have "tracked w s model ?s1 ?m"
    unfolding tracked_def by (auto intro!: exI[of _ "[Module ModelTrain]"])
  have t: "tracked w s model s' m'"
    by (rule for_batches_inv[where J = "tracked w s model", OF _ _ \<open>tracked w s model ?s1 ?m\<close> loop])
       (auto intro: tracked_train_batch tracked_log)
  then show "training m'" by (simp add: tracked_def)
  from assms have "s' = after s (train_calls w a device epoch)"
    using train_succ[of w a model device epoch s s'] by blast
  with t show "params m' = replay w (length (trace s)) (train_calls w a device epoch) (params model)"
    by (auto simp: tracked_def)
qed

lemma with_no_grad_Inr_iff:
  "with_no_grad w body s = (Inr a, s') \<longleftrightarrow>
     raises w (length (trace s)) (Torch NoGradInit) = None \<and>
     raises w (Suc (length (trace s))) (Torch NoGradEnter) = None \<and>
     (\<exists>s1. body (after s [Torch NoGradInit, Torch NoGradEnter]) = (Inr a, s1) \<and>
        raises w (length (trace s1)) (Torch NoGradExit) = None \<and>
        s' = after s1 [Torch NoGradExit])"
  unfolding with_no_grad_def
  by (auto simp: run_simps split: prod.splits sum.splits)

lemma test_iff:
  "test w a model device s = (Inr m', s') \<longleftrightarrow>
     clear_from w s (test_calls w device) \<and> m' = model\<lparr>training := False\<rparr> \<and>
     s' = after s (test_calls w device)"
proof -
  have loop: "(\<exists>u. for_batches w TestLoader (test_batches w)
        (\<lambda>_ _. test_batch w device (model\<lparr>training := False\<rparr>)) () s1 = (Inr u, s2)) \<longleftrightarrow>
     (clear_from w s1 (for_batches_calls TestLoader (test_batches w)
         (\<lambda>_. test_batch_calls device)) \<and>
      s2 = after s1 (for_batches_calls TestLoader (test_batches w)
         (\<lambda>_. test_batch_calls device)))" for s1 s2
    by (rule for_batches_succ[where I = "\<lambda>_. True"]) (simp_all add: test_batch_iff)
  show ?thesis
    unfolding test_def test_calls_def
    by (auto simp add: run_simps with_no_grad_Inr_iff loop[simplified] clear_from_append)
qed

lemma epoch_loop_succ:
  "(\<exists>m. epoch_loop w args model device s = (Inr m, s')) \<longleftrightarrow>
     (clear_from w s (concat (map (epoch_calls w device) [1..<61])) \<and>
      s' = after s (concat (map (epoch_calls w device) [1..<61])))"
proof -
  have e: "epochs args + 1 = 61" by (simp add: args_def)
  have body: "(\<exists>a'. bnd (train w args m device epoch) (\<lambda>model. test w args model device) s1
        = (Inr a', s2)) \<longleftrightarrow>
      (clear_from w s1 (epoch_calls w device epoch) \<and> s2 = after s1 (epoch_calls w device epoch))"
    for epoch m s1 s2
  proof -
    have "(\<exists>a'. bnd (train w args m device epoch) (\<lambda>model. test w args model device) s1
        = (Inr a', s2)) \<longleftrightarrow>
      (\<exists>s3. (\<exists>m1. train w args m device epoch s1 = (Inr m1, s3)) \<and>
         clear_from w s3 (test_calls w device) \<and> s2 = after s3 (test_calls w device))"
      by (auto simp: bnd_Inr_iff test_iff)
    then show ?thesis
      unfolding train_succ epoch_calls_def by (auto simp: clear_from_append)
  qed
  show ?thesis
    unfolding epoch_loop_def e
    by (rule for_each_succ[where I = "\<lambda>_. True"]) (simp_all add: body)
qed


lemma make_transform_iff:
  "make_transform w s = (Inr tf, s') \<longleftrightarrow>
     clear_from w s make_transform_calls \<and> tf = mnist_transform \<and>
     s' = after s make_transform_calls"
  unfolding make_transform_def make_transform_calls_def
  by (auto simp: run_simps)

lemma with_dataset_simps [simp]:
  "with_dataset w fs ''../data'' \<noteq> None"
  "p \<noteq> ''../data'' \<Longrightarrow> with_dataset w fs p = fs p"
  by (auto simp: with_dataset_def split: option.splits)

lemma state_files_same [simp]: "s\<lparr>files := files s\<rparr> = s"
  by simp

lemma datasets_MNIST_download_iff:
  "datasets_MNIST w ''../data'' t True tf s = (Inr u, s') \<longleftrightarrow>
     raises w (length (trace s)) (Data (MNIST ''../data'' t True tf)) = None \<and>
     s' = (after s [Data (MNIST ''../data'' t True tf)])\<lparr>files := with_dataset w (files s)\<rparr>"
  by (auto simp: datasets_MNIST_def Let_def record_call_def after_def with_dataset_def
      split: option.splits)

lemma datasets_MNIST_present_iff:
  "files s dir \<noteq> None \<Longrightarrow>
   datasets_MNIST w dir t d tf s = (Inr u, s') \<longleftrightarrow>
     raises w (length (trace s)) (Data (MNIST dir t d tf)) = None \<and>
     s' = after s [Data (MNIST dir t d tf)]"
  by (auto simp: datasets_MNIST_def Let_def record_call_def after_def
      split: option.splits)

lemma args_simps [simp]:
  "batch_size args = 64" "test_batch_size args = 1000" "epochs args = 60"
  "lr args = 0.01" "momentum args = 0.5" "no_cuda args = False" "seed args = 1"
  "log_interval args = 300"
  by (simp_all add: args_def)

lemma make_parser_iff:
  "make_parser w s = (Inr u, s') \<longleftrightarrow>
     clear_from w s make_parser_calls \<and> s' = after s make_parser_calls"
  unfolding make_parser_def make_parser_calls_def
  by (simp add: run_simps)

lemma parse_args_iff:
  "parse_args w s = (Inr a, s') \<longleftrightarrow>
     raises w (length (trace s)) (Arg (ParseArgs [''--epochs'', ''60'', ''--log-interval'', ''300'']))
       = None \<and>
     a = args \<and>
     s' = after s [Arg (ParseArgs [''--epochs'', ''60'', ''--log-interval'', ''300''])]"
  unfolding parse_args_def
  by (auto simp: run_simps)

lemma cell_train_succ:
  "(\<exists>m. cell_train w s = (Inr m, s')) \<longleftrightarrow>
     (clear_from w s (cell_train_calls w) \<and>
      s' = (after s (cell_train_calls w))\<lparr>files := with_dataset w (files s)\<rparr>)"
  unfolding cell_train_def cell_train_calls_def cell_train_setup_calls_def Let_def
  by (simp add: run_simps make_parser_iff parse_args_iff make_transform_iff
        datasets_MNIST_download_iff
        datasets_MNIST_present_iff Net_init_iff clear_from_append
        device_of_def kwargs_of_def make_transform_calls_def Net_init_calls_def
        epoch_loop_succ)


lemma cell_save_iff:
  "cell_save w model s = (Inr u, s') \<longleftrightarrow>
     clear_from w s (cell_save_calls (params model)) \<and>
     s' = (after s (cell_save_calls (params model)))
            \<lparr>files := (files s)(''output/mnist.pth'' \<mapsto> pickle w (params model))\<rparr>"
  unfolding cell_save_def cell_save_calls_def torch_save_def
  by (auto simp: run_simps)

lemma torch_randn_iff:
  "torch_randn w shp s = (Inr x, s') \<longleftrightarrow>
     raises w (length (trace s)) (Torch (Randn shp)) = None \<and>
     x = \<lparr>shape = shp, elems = randn w (length (trace s)) shp\<rparr> \<and>
     s' = after s [Torch (Randn shp)]"
  unfolding torch_randn_def by (auto simp: run_simps)

lemma cell_export_iff:
  "cell_export w s = (Inr u, s') \<longleftrightarrow>
     (\<exists>b. files s ''output/mnist.pth'' = Some b \<and>
        clear_from w s (cell_export_calls (unpickle w b) (dummy_input w (length (trace s)))) \<and>
        s' = (after s (cell_export_calls (unpickle w b) (dummy_input w (length (trace s)))))
               \<lparr>files := (files s)(''output/mnist.onnx'' \<mapsto>
                  onnx_bytes w \<lparr>params = unpickle w b, training = True\<rparr>
                    (dummy_input w (length (trace s))))\<rparr>)"
proof -
  have n9: "k + 9 = Suc (Suc (Suc (Suc (Suc (Suc (Suc (Suc (Suc k))))))))" for k :: nat
    by simp
  show ?thesis
    unfolding cell_export_def cell_export_calls_def torch_load_def load_state_dict_def
      torch_onnx_export_def Let_def dummy_input_def n9
    by (auto simp: run_simps Net_init_iff torch_randn_iff Net_init_calls_def)
qed

lemma cell_import_iff:
  "cell_import w s = (Inr tf, s') \<longleftrightarrow>
     (\<exists>b. files s ''output/mnist.onnx'' = Some b \<and>
        clear_from w s (cell_import_calls (onnx_parse w b)) \<and>
        tf = tf_prepare w (onnx_parse w b) \<and>
        s' = after s (cell_import_calls (onnx_parse w b)))"
  unfolding cell_import_def cell_import_calls_def onnx_load_def prepare_def
  by (auto simp: run_simps)

lemma cell_explore_iff:
  "cell_explore w tf s = (Inr u, s') \<longleftrightarrow>
     clear_from w s (cell_explore_calls tf) \<and> s' = after s (cell_explore_calls tf)"
  unfolding cell_explore_def cell_explore_calls_def
  by (auto simp: run_simps)

lemma classify_iff:
  "classify w tf title p s = (Inr u, s') \<longleftrightarrow>
     (\<exists>b. files s p = Some b \<and>
        clear_from w s (classify_calls tf title p (sample_input w b)) \<and>
        s' = after s (classify_calls tf title p (sample_input w b)))"
  unfolding classify_def classify_calls_def Image_open_def resize_def convert_def
    np_asarray_def new_axes_def tf_rep_run_def sample_input_def
  by (auto simp: run_simps)

lemma cell_run_iff:
  "cell_run w tf s = (Inr u, s') \<longleftrightarrow>
     (\<exists>b1 b2. files s ''assets/two.png'' = Some b1 \<and> files s ''assets/three.png'' = Some b2 \<and>
        clear_from w s (cell_run_calls tf (sample_input w b1) (sample_input w b2)) \<and>
        s' = after s (cell_run_calls tf (sample_input w b1) (sample_input w b2)))"
  unfolding cell_run_def cell_run_calls_def
  by (auto simp: run_simps classify_iff clear_from_append)

lemma cell_export_graph_iff:
  "cell_export_graph w tf s = (Inr u, s') \<longleftrightarrow>
     clear_from w s (cell_export_graph_calls tf) \<and>
     s' = (after s (cell_export_graph_calls tf))
            \<lparr>files := (files s)(''output/mnist.pb'' \<mapsto> tf_graph w tf)\<rparr>"
  unfolding cell_export_graph_def cell_export_graph_calls_def export_graph_def
  by (auto simp: run_simps)


lemma exports_of_append:
  "\<forall>ev\<in>set xs. \<not> is_export (fst ev) \<Longrightarrow> exports_of sd ys \<Longrightarrow> exports_of sd (xs @ ys)"
  unfolding exports_of_def by (auto simp: filter_empty_conv[THEN iffD2])

lemma exports_of_none: "\<forall>ev\<in>set xs. \<not> is_export (fst ev) \<Longrightarrow> exports_of sd xs"
  using exports_of_append[of xs sd "[]"] by (simp add: exports_of_def)

lemma only_exportI:
  "(\<And>r s'. m s = (r, s') \<Longrightarrow> \<exists>evs. trace s' = trace s @ evs \<and> exports_of sd evs) \<Longrightarrow>
   only_export sd m s"
  unfolding only_export_def by blast

lemma only_exportE:
  assumes "only_export sd m s" "m s = (r, s')"
  obtains evs where "trace s' = trace s @ evs" "exports_of sd evs"
  using assms unfolding only_export_def by blast

lemma only_export_bnd:
  assumes m: "env w b (\<lambda>c. \<not> is_export c) m"
    and f: "\<And>a s1. m s = (Inr a, s1) \<Longrightarrow> only_export sd (f a) s1"
  shows "only_export sd (bnd m f) s"
proof (rule only_exportI)
  fix r s' assume "bnd m f s = (r, s')"
  then show "\<exists>evs. trace s' = trace s @ evs \<and> exports_of sd evs"
  proof (cases rule: bnd_cases)
    case (fail e)
    from m fail(1) obtain evs where "step_ok w b (\<lambda>c. \<not> is_export c) s (fst (m s)) s' evs"
      by (rule envE) (simp add: fail(1))
    then have evs: "trace s' = trace s @ evs" "\<forall>ev\<in>set evs. \<not> is_export (fst ev)"
      by (simp_all add: step_ok_def)
    from evs(2) have "exports_of sd evs" by (rule exports_of_none)
    with evs(1) have "trace s' = trace s @ evs \<and> exports_of sd evs" ..
    then show ?thesis by (rule exI)
  next
    case (succ a s1)
    from m succ(1) obtain xs where "step_ok w b (\<lambda>c. \<not> is_export c) s (fst (m s)) s1 xs"
      by (rule envE) (simp add: succ(1))
    then have xs: "trace s1 = trace s @ xs" "\<forall>ev\<in>set xs. \<not> is_export (fst ev)"
      by (simp_all add: step_ok_def)
    from f[OF succ(1)] succ(2) obtain ys where ys: "trace s' = trace s1 @ ys" "exports_of sd ys"
      by (rule only_exportE)
    from xs(2) ys(2) have "exports_of sd (xs @ ys)" by (rule exports_of_append)
    moreover from xs ys have "trace s' = trace s @ (xs @ ys)" by simp
    ultimately have "trace s' = trace s @ (xs @ ys) \<and> exports_of sd (xs @ ys)" by simp
    then show ?thesis by (rule exI)
  qed
qed

lemma only_export_torch_onnx_export:
  "only_export sd (torch_onnx_export w \<lparr>params = sd, training = True\<rparr> x ''output/mnist.onnx'') s"
  unfolding only_export_def torch_onnx_export_def
  by (auto simp: bnd_def call_def emit_def write_file_def record_call_def exports_of_def
      split: option.splits)

lemma env_no_export_Net_init: "env w True (\<lambda>c. \<not> is_export c) (Net_init w)"
  by (rule env_mono[OF env_Net_init[of w 2]]) (auto simp: cell_call_def stage_ok_def elim: is_export.elims)

lemma env_no_export_torch_load: "env w True (\<lambda>c. \<not> is_export c) (torch_load w p)"
  unfolding torch_load_def by (intro env_intros; simp)

lemma env_no_export_load_state_dict:
  "env w True (\<lambda>c. \<not> is_export c) (load_state_dict w self sd)"
  unfolding load_state_dict_def by (intro env_intros; simp)

lemma env_no_export_torch_randn: "env w True (\<lambda>c. \<not> is_export c) (torch_randn w shp)"
  unfolding torch_randn_def
  apply (rule env_state[where m = "\<lambda>t. bnd (call w (Torch (Randn shp)))
          (\<lambda>_. ret \<lparr>shape = shp, elems = randn w (length (trace t)) shp\<rparr>)"])
  apply (intro env_intros; simp)
  done

lemma cell_export_exports:
  assumes "files s ''output/mnist.pth'' = Some b"
  shows "only_export (unpickle w b) (cell_export w) s"
  unfolding cell_export_def Let_def
  apply (rule only_export_bnd[where w=w], rule env_call, simp, simp)
  apply (rule only_export_bnd[where w=w], rule env_no_export_Net_init)
  apply (rule only_export_bnd[where w=w], rule env_no_export_torch_load)
  apply (rule only_export_bnd[where w=w], rule env_no_export_load_state_dict)
  apply (rule only_export_bnd[where w=w], rule env_no_export_torch_randn)
  apply (rule only_export_bnd[where w=w], rule env_call, simp, simp)
  apply (clarsimp simp: run_simps Net_init_iff torch_load_def load_state_dict_def assms)
  apply (rule only_export_torch_onnx_export)
  done


lemma cells_upto_simps:
  "cells_upto 0 w v i1 i2 = []"
  "cells_upto (Suc 0) w v i1 i2 = cell_define_calls"
  "cells_upto 2 w v i1 i2 = cells_upto (Suc 0) w v i1 i2 @ cell_train_calls w"
  "cells_upto 3 w v i1 i2 = cells_upto 2 w v i1 i2 @ cell_save_calls v"
  "cells_upto 4 w v i1 i2 =
     cells_upto 3 w v i1 i2 @ cell_export_calls (loaded_params w v) (dummy_of w)"
  "cells_upto 5 w v i1 i2 =
     cells_upto 4 w v i1 i2 @ cell_import_calls (onnx_parse w (onnx_file w v))"
  "cells_upto 6 w v i1 i2 = cells_upto 5 w v i1 i2 @ cell_explore_calls (tf_rep_of w v)"
  "cells_upto 7 w v i1 i2 =
     cells_upto 6 w v i1 i2
     @ cell_run_calls (tf_rep_of w v) (sample_input w i1) (sample_input w i2)"
  "notebook_calls w v i1 i2 =
     cells_upto 7 w v i1 i2 @ cell_export_graph_calls (tf_rep_of w v)"
  by (simp_all add: cells_upto_def cells_def notebook_calls_def eval_nat_numeral)

lemma cell_stage_simps [simp]:
  "cell_stage (Suc 0) = 1" "cell_stage 2 = 2" "cell_stage 3 = 3" "cell_stage 4 = 4"
  "cell_stage 5 = 5" "cell_stage 6 = 5" "cell_stage 7 = 6" "cell_stage 8 = 6"
  by (simp_all add: cell_stage_def eval_nat_numeral)

lemma stoppedI:
  assumes env: "env w b (cell_call (cell_stage (Suc k))) m"
    and run: "m s = (Inl e, s')"
    and tr: "trace s = ok (cells_upto k w v i1 i2)"
    and fs: "files s = files_after k w v"
    and k: "k < 8" "k = 3 \<Longrightarrow> only_export (loaded_params w v) m s"
  shows "\<exists>evs. stopped_in w k (Inl e) s' v i1 i2 evs"
proof -
  from env run obtain evs where
    "step_ok w b (cell_call (cell_stage (Suc k))) s (fst (m s)) s' evs"
    by (rule envE) (simp add: run)
  then have st: "trace s' = trace s @ evs" "outcome_ok b (fst (m s)) evs"
    "exact w (files s) (length (trace s)) evs"
    "\<forall>ev\<in>set evs. cell_call (cell_stage (Suc k)) (fst ev)"
    "files s' = written w (files s) evs"
    by (simp_all add: step_ok_def)
  from st(2) have ab: "aborted e evs \<or> aborted_in_with e evs"
    by (auto simp: run outcome_ok_def)
  have ex: "exports_of (loaded_params w v) evs" if "k = 3"
  proof -
    from k(2)[OF that] run obtain ys where "trace s' = trace s @ ys"
      "exports_of (loaded_params w v) ys"
      by (rule only_exportE)
    with st(1) show ?thesis by simp
  qed
  have "stopped_in w k (Inl e) s' v i1 i2 evs"
    unfolding stopped_in_def using st ab ex k(1) by (simp add: tr fs)
  then show ?thesis ..
qed

lemma level:
  assumes run: "bnd m f s = (r, s')"
    and env: "env w b (cell_call (cell_stage (Suc k))) m"
    and tr: "trace s = ok (cells_upto k w v i1 i2)"
    and fs: "files s = files_after k w v"
    and k: "k < 8" "k = 3 \<longrightarrow> only_export (loaded_params w v) m s"
  shows "(\<exists>evs. stopped_in w k r s' v i1 i2 evs) \<or>
         (\<exists>a s1. m s = (Inr a, s1) \<and> f a s1 = (r, s'))"
  using run
proof (cases rule: bnd_cases)
  case (fail e)
  from k(2) have "k = 3 \<Longrightarrow> only_export (loaded_params w v) m s" by simp
  from stoppedI[OF env fail(1) tr fs k(1) this] show ?thesis unfolding fail(2) by blast
next
  case (succ a s1)
  then show ?thesis by blast
qed

lemma files_after_simps:
  "files_after 0 w v = files0 w"
  "files_after (Suc 0) w v = files0 w"
  "files_after 2 w v = with_dataset w (files0 w)"
  "files_after 3 w v = (with_dataset w (files0 w))(''output/mnist.pth'' \<mapsto> pickle w v)"
  "files_after 4 w v = (with_dataset w (files0 w))
     (''output/mnist.pth'' \<mapsto> pickle w v, ''output/mnist.onnx'' \<mapsto> onnx_file w v)"
  "files_after 5 w v = files_after 4 w v"
  "files_after 6 w v = files_after 4 w v"
  "files_after 7 w v = files_after 4 w v"
  by (simp_all add: files_after_def)

lemma length_cells_upto_3:
  "length (cells_upto 3 w v i1 i2) = length (cell_train_calls w) + 6"
  by (simp add: cells_upto_simps cell_save_calls_def cell_define_calls_def)

lemma run_cases:
  fixes w :: "'v world"
  assumes run: "run w = (r, s')"
  shows "(\<exists>v i1 i2. completed w r s' v i1 i2) \<or> (\<exists>k v i1 i2 evs. stopped_in w k r s' v i1 i2 evs)"
proof -
  fix v0 j1 j2 :: 'v
  let ?s0 = "init w"
  let ?c1 = "cell_define_calls :: 'v call list"
  have lt: "(0::nat) < 8" "Suc 0 < 8" "(2::nat) < 8" "(3::nat) < 8" "(4::nat) < 8"
    "(5::nat) < 8" "(6::nat) < 8"
    by simp_all
  have ne: "(0::nat) = 3 \<longrightarrow> P" "Suc 0 = 3 \<longrightarrow> P" "(2::nat) = 3 \<longrightarrow> P"
    "(4::nat) = 3 \<longrightarrow> P" "(5::nat) = 3 \<longrightarrow> P" "(6::nat) = 3 \<longrightarrow> P" for P
    by simp_all
  have tr0: "trace ?s0 = ok (cells_upto 0 w v i1 i2)" for v i1 i2
    by (simp add: init_def cells_upto_simps)
  have fs0: "files ?s0 = files_after 0 w v" for v
    by (simp add: init_def files_after_simps)
  have e0: "env w True (cell_call (cell_stage (Suc 0))) (cell_define w)"
    using env_cell_define[of w] by simp
  from run have run0: "bnd (cell_define w) (\<lambda>_.
     bnd (cell_train w) (\<lambda>model.
     bnd (cell_save w model) (\<lambda>_.
     bnd (cell_export w) (\<lambda>_.
     bnd (cell_import w) (\<lambda>tf_rep.
     bnd (cell_explore w tf_rep) (\<lambda>_.
     bnd (cell_run w tf_rep) (\<lambda>_.
     cell_export_graph w tf_rep))))))) ?s0 = (r, s')"
    by (simp add: run_def notebook_def)
  from level[OF run0 e0 tr0[of v0 j1 j2] fs0[of v0] lt(1) ne(1)] show ?thesis
  proof (elim disjE exE conjE)
    fix evs assume "stopped_in w 0 r s' v0 j1 j2 evs"
    then show ?thesis by blast
  next
    fix u1 s1
    assume ok1: "cell_define w ?s0 = (Inr u1, s1)"
      and run1: "bnd (cell_train w) (\<lambda>model.
         bnd (cell_save w model) (\<lambda>_.
         bnd (cell_export w) (\<lambda>_.
         bnd (cell_import w) (\<lambda>tf_rep.
         bnd (cell_explore w tf_rep) (\<lambda>_.
         bnd (cell_run w tf_rep) (\<lambda>_.
         cell_export_graph w tf_rep)))))) s1 = (r, s')"
    from ok1 have c1: "clear_from w ?s0 ?c1" and s1: "s1 = after ?s0 ?c1"
      by (simp_all add: cell_define_iff)
    have t1: "trace s1 = ok ?c1"
      by (simp add: s1 init_def)
    have tr1: "trace s1 = ok (cells_upto (Suc 0) w v i1 i2)" for v i1 i2
      by (simp add: t1 cells_upto_simps)
    have fs1: "files s1 = files_after (Suc 0) w v" for v
      by (simp add: s1 init_def files_after_simps)
    have e1: "env w False (cell_call (cell_stage (Suc (Suc 0)))) (cell_train w)"
      using env_cell_train[of w] by (simp add: cell_stage_def)
    from level[OF run1 e1 tr1[of v0 j1 j2] fs1[of v0] lt(2) ne(2)] show ?thesis
    proof (elim disjE exE conjE)
      fix evs assume "stopped_in w (Suc 0) r s' v0 j1 j2 evs"
      then show ?thesis by blast
    next
      fix model s2
      assume ok2: "cell_train w s1 = (Inr model, s2)"
        and run2: "bnd (cell_save w model) (\<lambda>_.
           bnd (cell_export w) (\<lambda>_.
           bnd (cell_import w) (\<lambda>tf_rep.
           bnd (cell_explore w tf_rep) (\<lambda>_.
           bnd (cell_run w tf_rep) (\<lambda>_.
           cell_export_graph w tf_rep))))) s2 = (r, s')"
      define v where "v = params model"
      from ok2 have "\<exists>m. cell_train w s1 = (Inr m, s2)" by blast
      then have c2: "clear_from w s1 (cell_train_calls w)"
        and s2: "s2 = (after s1 (cell_train_calls w))\<lparr>files := with_dataset w (files s1)\<rparr>"
        by (simp_all add: cell_train_succ)
      have t2: "trace s2 = ok (?c1 @ cell_train_calls w)"
        by (simp add: s2 t1)
      have tr2: "trace s2 = ok (cells_upto 2 w v i1 i2)" for i1 i2
        by (simp add: t2 cells_upto_simps)
      have fs2: "files s2 = files_after 2 w v"
        by (simp add: s2 s1 init_def files_after_simps)
      have e2: "env w True (cell_call (cell_stage (Suc 2))) (cell_save w model)"
        using env_cell_save[of w model] by (simp add: cell_stage_def)
      from level[OF run2 e2 tr2[of j1 j2] fs2 lt(3) ne(3)] show ?thesis
      proof (elim disjE exE conjE)
        fix evs assume "stopped_in w 2 r s' v j1 j2 evs"
        then show ?thesis by blast
      next
        fix u3 s3
        assume ok3: "cell_save w model s2 = (Inr u3, s3)"
          and run3: "bnd (cell_export w) (\<lambda>_.
             bnd (cell_import w) (\<lambda>tf_rep.
             bnd (cell_explore w tf_rep) (\<lambda>_.
             bnd (cell_run w tf_rep) (\<lambda>_.
             cell_export_graph w tf_rep)))) s3 = (r, s')"
        from ok3 have c3: "clear_from w s2 (cell_save_calls v)"
          and s3: "s3 = (after s2 (cell_save_calls v))
             \<lparr>files := (files s2)(''output/mnist.pth'' \<mapsto> pickle w v)\<rparr>"
          by (simp_all add: cell_save_iff v_def)
        have t3: "trace s3 = ok (?c1 @ cell_train_calls w @ cell_save_calls v)"
          by (simp add: s3 t2)
        have tr3: "trace s3 = ok (cells_upto 3 w v i1 i2)" for i1 i2
          by (simp add: t3 cells_upto_simps)
        have fs3: "files s3 = files_after 3 w v"
          by (simp add: s3 fs2 files_after_simps)
        have pth: "files s3 ''output/mnist.pth'' = Some (pickle w v)"
          by (simp add: fs3 files_after_simps)
        have dummy: "dummy_input w (length (trace s3)) = dummy_of w"
          by (simp add: tr3[of j1 j2] length_cells_upto_3 dummy_of_def)
        have e3: "env w True (cell_call (cell_stage (Suc 3))) (cell_export w)"
          using env_cell_export[of w] by (simp add: cell_stage_def)
        have x3: "3 = (3::nat) \<longrightarrow> only_export (loaded_params w v) (cell_export w) s3"
          using cell_export_exports[OF pth, of w] by (simp add: loaded_params_def)
        from level[OF run3 e3 tr3[of j1 j2] fs3 lt(4) x3] show ?thesis
        proof (elim disjE exE conjE)
          fix evs assume "stopped_in w 3 r s' v j1 j2 evs"
          then show ?thesis by blast
        next
          fix u4 s4
          assume ok4: "cell_export w s3 = (Inr u4, s4)"
            and run4: "bnd (cell_import w) (\<lambda>tf_rep.
               bnd (cell_explore w tf_rep) (\<lambda>_.
               bnd (cell_run w tf_rep) (\<lambda>_.
               cell_export_graph w tf_rep))) s4 = (r, s')"
          from ok4 have
            c4: "clear_from w s3 (cell_export_calls (loaded_params w v) (dummy_of w))"
            and s4: "s4 = (after s3 (cell_export_calls (loaded_params w v) (dummy_of w)))
               \<lparr>files := (files s3)(''output/mnist.onnx'' \<mapsto> onnx_file w v)\<rparr>"
            by (simp_all add: cell_export_iff pth dummy loaded_params_def onnx_file_def)
          have t4: "trace s4 = ok (?c1 @ cell_train_calls w @ cell_save_calls v @ cell_export_calls (loaded_params w v) (dummy_of w))"
            by (simp add: s4 t3)
          have tr4: "trace s4 = ok (cells_upto 4 w v i1 i2)" for i1 i2
            by (simp add: t4 cells_upto_simps)
          have fs4: "files s4 = files_after 4 w v"
            by (simp add: s4 fs3 files_after_simps)
          have onnx: "files s4 ''output/mnist.onnx'' = Some (onnx_file w v)"
            by (simp add: fs4 files_after_simps)
          have e4: "env w True (cell_call (cell_stage (Suc 4))) (cell_import w)"
            using env_cell_import[of w] by (simp add: cell_stage_def)
          from level[OF run4 e4 tr4[of j1 j2] fs4 lt(5) ne(4)] show ?thesis
          proof (elim disjE exE conjE)
            fix evs assume "stopped_in w 4 r s' v j1 j2 evs"
            then show ?thesis by blast
          next
            fix tf_rep s5
            assume ok5: "cell_import w s4 = (Inr tf_rep, s5)"
              and run5: "bnd (cell_explore w tf_rep) (\<lambda>_.
                 bnd (cell_run w tf_rep) (\<lambda>_.
                 cell_export_graph w tf_rep)) s5 = (r, s')"
            from ok5 have
              c5: "clear_from w s4 (cell_import_calls (onnx_parse w (onnx_file w v)))"
              and tf: "tf_rep = tf_rep_of w v"
              and s5: "s5 = after s4 (cell_import_calls (onnx_parse w (onnx_file w v)))"
              by (simp_all add: cell_import_iff onnx tf_rep_of_def)
            have t5: "trace s5 = ok (?c1 @ cell_train_calls w @ cell_save_calls v @ cell_export_calls (loaded_params w v) (dummy_of w) @ cell_import_calls (onnx_parse w (onnx_file w v)))"
              by (simp add: s5 t4)
            have tr5: "trace s5 = ok (cells_upto 5 w v i1 i2)" for i1 i2
              by (simp add: t5 cells_upto_simps)
            have fs5: "files s5 = files_after 5 w v"
              by (simp add: s5 fs4 files_after_simps)
            have e5: "env w True (cell_call (cell_stage (Suc 5))) (cell_explore w tf_rep)"
              using env_cell_explore[of w tf_rep] by (simp add: cell_stage_def)
            from level[OF run5 e5 tr5[of j1 j2] fs5 lt(6) ne(5)] show ?thesis
            proof (elim disjE exE conjE)
              fix evs assume "stopped_in w 5 r s' v j1 j2 evs"
              then show ?thesis by blast
            next
              fix u6 s6
              assume ok6: "cell_explore w tf_rep s5 = (Inr u6, s6)"
                and run6: "bnd (cell_run w tf_rep) (\<lambda>_. cell_export_graph w tf_rep) s6
                   = (r, s')"
              from ok6 have c6: "clear_from w s5 (cell_explore_calls (tf_rep_of w v))"
                and s6: "s6 = after s5 (cell_explore_calls (tf_rep_of w v))"
                by (simp_all add: cell_explore_iff tf)
              have t6: "trace s6 = ok (?c1 @ cell_train_calls w @ cell_save_calls v @ cell_export_calls (loaded_params w v) (dummy_of w) @ cell_import_calls (onnx_parse w (onnx_file w v)) @ cell_explore_calls (tf_rep_of w v))"
                by (simp add: s6 t5)
              have tr6: "trace s6 = ok (cells_upto 6 w v i1 i2)" for i1 i2
                by (simp add: t6 cells_upto_simps)
              have fs6: "files s6 = files_after 6 w v"
                by (simp add: s6 fs5 files_after_simps)
              have e6: "env w True (cell_call (cell_stage (Suc 6))) (cell_run w tf_rep)"
                using env_cell_run[of w tf_rep] by (simp add: cell_stage_def)
              from level[OF run6 e6 tr6[of j1 j2] fs6 lt(7) ne(6)] show ?thesis
              proof (elim disjE exE conjE)
                fix evs assume "stopped_in w 6 r s' v j1 j2 evs"
                then show ?thesis by blast
              next
                fix u7 s7
                assume ok7: "cell_run w tf_rep s6 = (Inr u7, s7)"
                  and run7: "cell_export_graph w tf_rep s7 = (r, s')"
                from ok7 obtain i1 i2 where
                  i1: "files s6 ''assets/two.png'' = Some i1"
                  and i2: "files s6 ''assets/three.png'' = Some i2"
                  and c7: "clear_from w s6
                     (cell_run_calls (tf_rep_of w v) (sample_input w i1) (sample_input w i2))"
                  and s7: "s7 = after s6
                     (cell_run_calls (tf_rep_of w v) (sample_input w i1) (sample_input w i2))"
                  by (auto simp: cell_run_iff tf)
                have tr7: "trace s7 = ok (cells_upto 7 w v i1 i2)"
                  by (simp add: s7 t6 cells_upto_simps)
                have fs7: "files s7 = files_after 7 w v"
                  by (simp add: s7 fs6 files_after_simps)
                have f1: "files0 w ''assets/two.png'' = Some i1"
                  "files0 w ''assets/three.png'' = Some i2"
                  using i1 i2 by (simp_all add: fs6 files_after_simps)
                show ?thesis
                proof (cases r)
                  case (Inl e)
                  have "env w True (cell_call (cell_stage (Suc 7))) (cell_export_graph w tf_rep)"
                    using env_cell_export_graph[of w tf_rep] by (simp add: cell_stage_def)
                  from stoppedI[OF this run7[unfolded Inl] tr7 fs7]
                  show ?thesis unfolding Inl by auto
                next
                  case (Inr u8)
                  from run7[unfolded Inr] have
                    c8: "clear_from w s7 (cell_export_graph_calls (tf_rep_of w v))"
                    and s8: "s' = (after s7 (cell_export_graph_calls (tf_rep_of w v)))
                      \<lparr>files := (files s7)(''output/mnist.pb'' \<mapsto> tf_graph w (tf_rep_of w v))\<rparr>"
                    by (simp_all add: cell_export_graph_iff tf)
                  have "trace s' = ok (notebook_calls w v i1 i2)"
                    by (simp add: s8 tr7 cells_upto_simps)
                  moreover have "files s' = final_files w v"
                    by (simp add: s8 fs7 files_after_simps final_files_def)
                  moreover have "clear_from w ?s0 (notebook_calls w v i1 i2)"
                    using c1 c2 c3 c4 c5 c6 c7 c8
                    by (simp add: cells_upto_simps clear_from_append s1 s2 s3 s4 s5 s6 s7)
                  ultimately have "completed w r s' v i1 i2"
                    unfolding completed_def using f1 Inr by simp
                  then show ?thesis by blast
                qed
              qed
            qed
          qed
        qed
      qed
    qed
  qed
qed


lemma clear_never:
  "raises w = (\<lambda>_ _. None) \<Longrightarrow>
   clear_from w s cs \<longleftrightarrow> Py (TrueDiv 0) \<notin> set cs \<and> Py (Mod 0) \<notin> set cs"
  by (induction cs arbitrary: s) (auto simp: call_ok_def split: call.splits py_call.splits)

lemma set_for_batches_calls:
  "set (for_batches_calls l n sc) =
     {Data (LoaderIter l), Data (NextBatch l n)} \<union> (\<Union>i<n. insert (Data (NextBatch l i)) (set (sc i)))"
  by (auto simp: for_batches_calls_def)

lemma cell_define_calls_ok: "c \<in> set cell_define_calls \<Longrightarrow> cell_call 1 c"
  by (auto simp: cell_define_calls_def)

lemma Net_init_calls_ok: "c \<in> set Net_init_calls \<Longrightarrow> cell_call k c"
  by (auto simp: Net_init_calls_def)

lemma train_calls_ok: "c \<in> set (train_calls w a device epoch) \<Longrightarrow> cell_call 2 c"
  by (auto simp: train_calls_def set_for_batches_calls train_batch_calls_def
      print_train_status_calls_def split: if_splits)

lemma test_calls_ok: "c \<in> set (test_calls w device) \<Longrightarrow> cell_call 2 c"
  by (auto simp: test_calls_def set_for_batches_calls test_batch_calls_def)

lemma cell_train_calls_ok: "c \<in> set (cell_train_calls w) \<Longrightarrow> cell_call 2 c"
  by (auto simp: cell_train_calls_def cell_train_setup_calls_def epoch_calls_def
      make_parser_calls_def
      make_transform_calls_def dest: train_calls_ok test_calls_ok Net_init_calls_ok[of _ 2])

lemma cell_save_calls_ok: "c \<in> set (cell_save_calls v) \<Longrightarrow> cell_call 3 c"
  by (auto simp: cell_save_calls_def)

lemma shape_dummy_of [simp]: "shape (dummy_of w) = [1, 1, 28, 28]"
  by (simp add: dummy_of_def dummy_input_def)

lemma cell_export_calls_ok:
  "shape x = [1, 1, 28, 28] \<Longrightarrow> c \<in> set (cell_export_calls sd x) \<Longrightarrow> cell_call 4 c"
  by (auto simp: cell_export_calls_def dest: Net_init_calls_ok[of _ 4])

lemma cell_import_calls_ok: "c \<in> set (cell_import_calls m) \<Longrightarrow> cell_call 5 c"
  by (auto simp: cell_import_calls_def)

lemma cell_explore_calls_ok: "c \<in> set (cell_explore_calls tf) \<Longrightarrow> cell_call 5 c"
  by (auto simp: cell_explore_calls_def)

lemma sample_input_simps [simp]:
  "shape (sample_input w v) = [1, 1, 28, 28]"
  "elems (sample_input w v) =
     map (\<lambda>b. real (unat b)) (pil_convert w (resized w (pil_open w v) (28, 28)) ''L'')"
  by (simp_all add: sample_input_def newaxis2_def float32_array_def converted_def resized_def)

lemma is_byte_sample_input [simp]: "list_all is_byte (elems (sample_input w v))"
  by (auto simp: list_all_iff is_byte_def)

lemma cell_run_calls_ok:
  "c \<in> set (cell_run_calls tf (sample_input w i1) (sample_input w i2)) \<Longrightarrow> cell_call 6 c"
  by (auto simp: cell_run_calls_def classify_calls_def simp del: sample_input_simps(2))

lemma cell_export_graph_calls_ok: "c \<in> set (cell_export_graph_calls tf) \<Longrightarrow> cell_call 6 c"
  by (auto simp: cell_export_graph_calls_def)


lemma stages_append [simp]: "stages (xs @ ys) = stages xs @ stages ys"
  by (induction xs) (auto split: option.splits)

lemma stages_of_cell:
  "\<forall>ev\<in>set evs. cell_call j (fst ev) \<Longrightarrow> set (stages evs) \<subseteq> {j} \<and> sorted (stages evs)"
  by (induction evs) (auto simp: cell_call_def stage_ok_def split: option.splits)

lemma sorted_stages_step:
  assumes "sorted (stages xs)" "\<forall>n\<in>set (stages xs). n \<le> j" "\<forall>ev\<in>set ys. cell_call j (fst ev)"
  shows "sorted (stages (xs @ ys))" "\<forall>n\<in>set (stages (xs @ ys)). n \<le> j"
  using assms stages_of_cell[OF assms(3)] by (auto simp: sorted_append)

lemma set_ok [simp]: "ev \<in> set (ok cs) \<longleftrightarrow> (\<exists>c\<in>set cs. ev = (c, None))"
  by (auto simp: ok_def)

lemma cells_upto_cases:
  assumes "k \<le> 8"
  obtains "k = 0" | "k = Suc 0" | "k = 2" | "k = 3" | "k = 4" | "k = 5" | "k = 6" | "k = 7"
    | "k = 8"
  using assms by arith

lemma cells_upto_8: "cells_upto 8 w v i1 i2 = notebook_calls w v i1 i2"
  by (simp add: cells_upto_def notebook_calls_def cells_def)

lemma cells_upto_Suc:
  assumes "k < 8"
  shows "\<exists>cs. cells_upto (Suc k) w v i1 i2 = cells_upto k w v i1 i2 @ cs \<and>
     (\<forall>c\<in>set cs. cell_call (cell_stage (Suc k)) c)"
proof -
  from assms have "k \<le> 8" by simp
  then show ?thesis
  proof (cases rule: cells_upto_cases)
    case 1
    show ?thesis unfolding 1
      by (auto simp: cells_upto_simps dest: cell_define_calls_ok)
  next
    case 2
    have e: "Suc (Suc 0) = 2" by simp
    show ?thesis unfolding 2 e
      by (auto simp: cells_upto_simps dest: cell_train_calls_ok)
  next
    case 3
    have e: "Suc (2) = 3" by simp
    show ?thesis unfolding 3 e
      by (auto simp: cells_upto_simps dest: cell_save_calls_ok)
  next
    case 4
    have e: "Suc (3) = 4" by simp
    show ?thesis unfolding 4 e
      by (auto simp: cells_upto_simps dest: cell_export_calls_ok[rotated])
  next
    case 5
    have e: "Suc (4) = 5" by simp
    show ?thesis unfolding 5 e
      by (auto simp: cells_upto_simps dest: cell_import_calls_ok)
  next
    case 6
    have e: "Suc (5) = 6" by simp
    show ?thesis unfolding 6 e
      by (auto simp: cells_upto_simps dest: cell_explore_calls_ok)
  next
    case 7
    have e: "Suc (6) = 7" by simp
    show ?thesis unfolding 7 e
      by (auto simp: cells_upto_simps dest: cell_run_calls_ok)
  next
    case 8
    have e: "Suc (7) = 8" by simp
    show ?thesis unfolding 8 e
      by (auto simp: cells_upto_simps cells_upto_8 dest: cell_export_graph_calls_ok)
  next
    case 9
    with assms show ?thesis by simp
  qed
qed

lemma cell_stage_mono: "k < 8 \<Longrightarrow> cell_stage k \<le> cell_stage (Suc k) \<or> k = 0"
  by (cases rule: cells_upto_cases[of k]) (simp_all add: cell_stage_def)

lemma cells_upto_sorted:
  "k \<le> 8 \<Longrightarrow>
   sorted (stages (ok (cells_upto k w v i1 i2))) \<and>
   (\<forall>n\<in>set (stages (ok (cells_upto k w v i1 i2))). n \<le> cell_stage k)"
proof (induction k)
  case 0
  then show ?case by (simp add: cells_upto_simps)
next
  case (Suc k)
  then have k: "k < 8" by simp
  from cells_upto_Suc[OF k, of w v i1 i2] obtain cs where
    cs: "cells_upto (Suc k) w v i1 i2 = cells_upto k w v i1 i2 @ cs"
    "\<forall>c\<in>set cs. cell_call (cell_stage (Suc k)) c" by blast
  from Suc.IH k have ih: "sorted (stages (ok (cells_upto k w v i1 i2)))"
    "\<forall>n\<in>set (stages (ok (cells_upto k w v i1 i2))). n \<le> cell_stage k" by simp_all
  have le: "\<forall>n\<in>set (stages (ok (cells_upto k w v i1 i2))). n \<le> cell_stage (Suc k)"
  proof (cases "k = 0")
    case True
    then show ?thesis by (simp add: cells_upto_simps)
  next
    case False
    with cell_stage_mono[OF k] ih(2) show ?thesis by fastforce
  qed
  have "\<forall>ev\<in>set (ok cs). cell_call (cell_stage (Suc k)) (fst ev)" using cs(2) by auto
  from sorted_stages_step[OF ih(1) le this] show ?case by (simp add: cs(1))
qed

lemma cells_upto_ok:
  "k \<le> 8 \<Longrightarrow> c \<in> set (cells_upto k w v i1 i2) \<Longrightarrow> \<exists>j. 1 \<le> j \<and> j \<le> k \<and> cell_call (cell_stage j) c"
proof (induction k)
  case 0
  then show ?case by (simp add: cells_upto_simps)
next
  case (Suc k)
  then have k: "k < 8" by simp
  from cells_upto_Suc[OF k, of w v i1 i2] obtain cs where
    cs: "cells_upto (Suc k) w v i1 i2 = cells_upto k w v i1 i2 @ cs"
    "\<forall>c\<in>set cs. cell_call (cell_stage (Suc k)) c" by blast
  from Suc.prems(2) cs(1) consider "c \<in> set (cells_upto k w v i1 i2)" | "c \<in> set cs" by auto
  then show ?case
  proof cases
    case 1
    with Suc.IH k obtain j where "1 \<le> j" "j \<le> k" "cell_call (cell_stage j) c" by auto
    then show ?thesis by (intro exI[of _ j]) simp
  next
    case 2
    with cs(2) show ?thesis by (intro exI[of _ "Suc k"]) simp
  qed
qed


lemma env_notebook: "env w False as_written (notebook w)"
  unfolding notebook_def
  apply (rule env_bnd, rule env_mono[OF env_cell_define[THEN env_weaken]], simp add: cell_call_def)
  apply (rule env_bnd, rule env_mono[OF env_cell_train], simp add: cell_call_def)
  apply (rule env_bnd, rule env_mono[OF env_cell_save[THEN env_weaken]], simp add: cell_call_def)
  apply (rule env_bnd, rule env_mono[OF env_cell_export[THEN env_weaken]], simp add: cell_call_def)
  apply (rule env_bnd, rule env_mono[OF env_cell_import[THEN env_weaken]], simp add: cell_call_def)
  apply (rule env_bnd, rule env_mono[OF env_cell_explore[THEN env_weaken]], simp add: cell_call_def)
  apply (rule env_bnd, rule env_mono[OF env_cell_run[THEN env_weaken]], simp add: cell_call_def)
  apply (rule env_mono[OF env_cell_export_graph[THEN env_weaken]], simp add: cell_call_def)
  done

lemma run_step_ok:
  "\<exists>evs. step_ok w False as_written (init w) (fst (run w)) (snd (run w)) evs"
  using env_notebook[of w] unfolding env_def run_def by (metis prod.collapse)

lemma run_envelope:
  "outcome_ok False (fst (run w)) (trace (snd (run w)))"
  "exact w (files0 w) 0 (trace (snd (run w)))"
  "\<forall>ev\<in>set (trace (snd (run w))). as_written (fst ev)"
  "files (snd (run w)) = written w (files0 w) (trace (snd (run w)))"
  using run_step_ok[of w] by (auto simp: step_ok_def init_def)

lemma quiet_nth: "quiet evs \<Longrightarrow> i < length evs \<Longrightarrow> snd (evs ! i) = None"
  by (simp add: quiet_def)

lemma aborted_raise_last:
  assumes "aborted e' tr" "i < length tr" "snd (tr ! i) = Some e"
  shows "Suc i = length tr \<and> e = e'"
proof -
  from assms(1) obtain pre c where tr: "tr = pre @ [(c, Some e')]" and q: "quiet pre"
    unfolding aborted_def by blast
  have "\<not> i < length pre"
  proof
    assume "i < length pre"
    with q assms(3) show False by (simp add: tr nth_append quiet_nth)
  qed
  with assms(2) have "i = length pre" by (simp add: tr)
  with assms(3) show ?thesis by (simp add: tr)
qed

lemma aborted_in_with_raise_last:
  assumes "aborted_in_with e' tr" "i < length tr" "snd (tr ! i) = Some e"
  shows "Suc (Suc i) = length tr \<or> (Suc i = length tr \<and> e = e')"
proof -
  from assms(1) obtain pre c e0 x where
    tr: "tr = pre @ [(c, Some e0), (Torch NoGradExit, x)]" and q: "quiet pre"
    and e': "e' = (case x of None \<Rightarrow> e0 | Some e1 \<Rightarrow> e1)"
    unfolding aborted_in_with_def by blast
  have "\<not> i < length pre"
  proof
    assume "i < length pre"
    with q assms(3) show False by (simp add: tr nth_append quiet_nth)
  qed
  with assms(2) have "i = length pre \<or> i = Suc (length pre)" by (simp add: tr) arith
  then consider "i = length pre" | "i = Suc (length pre)" by blast
  then show ?thesis
  proof cases
    case 1
    then show ?thesis by (simp add: tr)
  next
    case 2
    with assms(3) have "x = Some e" by (simp add: tr nth_append)
    with 2 e' show ?thesis by (simp add: tr)
  qed
qed

lemma run_broken_world:
  "run broken_world =
     (Inl (ImportError ''torch.nn.functional''),
      \<lparr>trace = [(Py (Import ''torch''), None), (Py (Import ''torch.nn''), None),
                (Py (Import ''torch.nn.functional''), Some (ImportError ''torch.nn.functional''))],
       files = files0 calm_world\<rparr>)"
  by (simp add: run_def notebook_def cell_define_def bnd_def call_def emit_def record_call_def
      init_def broken_world_def calm_world_def)


lemma TrueDiv_in_cell_train_calls:
  "Py (TrueDiv 0) \<in> set (cell_train_calls w) \<Longrightarrow> len_train_loader w = 0 \<or> len_test_dataset w = 0"
  by (auto simp: cell_train_calls_def cell_train_setup_calls_def epoch_calls_def
      make_parser_calls_def
      make_transform_calls_def Net_init_calls_def train_calls_def test_calls_def
      set_for_batches_calls train_batch_calls_def test_batch_calls_def
      print_train_status_calls_def split: if_splits)

lemma Mod_in_cell_train_calls: "Py (Mod 0) \<notin> set (cell_train_calls w)"
  by (auto simp: cell_train_calls_def cell_train_setup_calls_def epoch_calls_def
      make_parser_calls_def
      make_transform_calls_def Net_init_calls_def train_calls_def test_calls_def
      set_for_batches_calls train_batch_calls_def test_batch_calls_def
      print_train_status_calls_def split: if_splits)

lemma no_TrueDiv [simp]:
  "Py (TrueDiv n) \<notin> set cell_define_calls"
  "Py (TrueDiv n) \<notin> set (cell_save_calls v)"
  "Py (TrueDiv n) \<notin> set (cell_export_calls sd x)"
  "Py (TrueDiv n) \<notin> set (cell_import_calls m)"
  "Py (TrueDiv n) \<notin> set (cell_explore_calls tf)"
  "Py (TrueDiv n) \<notin> set (cell_run_calls tf x1 x2)"
  "Py (TrueDiv n) \<notin> set (cell_export_graph_calls tf)"
  by (auto simp: cell_define_calls_def cell_save_calls_def cell_export_calls_def
      Net_init_calls_def cell_import_calls_def cell_explore_calls_def cell_run_calls_def
      classify_calls_def cell_export_graph_calls_def)

lemma no_Mod [simp]:
  "Py (Mod n) \<notin> set cell_define_calls"
  "Py (Mod n) \<notin> set (cell_save_calls v)"
  "Py (Mod n) \<notin> set (cell_export_calls sd x)"
  "Py (Mod n) \<notin> set (cell_import_calls m)"
  "Py (Mod n) \<notin> set (cell_explore_calls tf)"
  "Py (Mod n) \<notin> set (cell_run_calls tf x1 x2)"
  "Py (Mod n) \<notin> set (cell_export_graph_calls tf)"
  by (auto simp: cell_define_calls_def cell_save_calls_def cell_export_calls_def
      Net_init_calls_def cell_import_calls_def cell_explore_calls_def cell_run_calls_def
      classify_calls_def cell_export_graph_calls_def)

lemma run_completes_fst:
  fixes w :: "'v world"
  assumes nr: "raises w = (\<lambda>_ _. None)"
    and l: "len_train_loader w \<noteq> 0" "len_test_dataset w \<noteq> 0"
    and f: "files0 w ''assets/two.png'' = Some i1" "files0 w ''assets/three.png'' = Some i2"
  shows "fst (run w) = Inr ()"
proof -
  note cl = clear_never[OF nr]
  let ?s0 = "init w"
  let ?c1 = "cell_define_calls :: 'v call list"
  define s1 where "s1 = after ?s0 ?c1"
  have r1: "cell_define w ?s0 = (Inr (), s1)"
    by (simp add: cell_define_iff cl s1_def)
  define s2 where "s2 = (after s1 (cell_train_calls w))\<lparr>files := with_dataset w (files s1)\<rparr>"
  have "\<exists>m. cell_train w s1 = (Inr m, s2)"
    unfolding cell_train_succ using l TrueDiv_in_cell_train_calls[of w]
      Mod_in_cell_train_calls[of w]
    by (auto simp: cl s2_def)
  then obtain model where r2: "cell_train w s1 = (Inr model, s2)" ..
  define v where "v = params model"
  define s3 where "s3 = (after s2 (cell_save_calls v))
     \<lparr>files := (files s2)(''output/mnist.pth'' \<mapsto> pickle w v)\<rparr>"
  have r3: "cell_save w model s2 = (Inr (), s3)"
    by (simp add: cell_save_iff cl s3_def v_def)
  let ?x = "dummy_input w (length (trace s3))"
  let ?sd = "unpickle w (pickle w v)"
  define s4 where "s4 = (after s3 (cell_export_calls ?sd ?x))
     \<lparr>files := (files s3)(''output/mnist.onnx'' \<mapsto>
        onnx_bytes w \<lparr>params = ?sd, training = True\<rparr> ?x)\<rparr>"
  have pth: "files s3 ''output/mnist.pth'' = Some (pickle w v)" by (simp add: s3_def)
  have r4: "cell_export w s3 = (Inr (), s4)"
    by (simp add: cell_export_iff pth cl s4_def)
  let ?b = "onnx_bytes w \<lparr>params = ?sd, training = True\<rparr> ?x"
  define s5 where "s5 = after s4 (cell_import_calls (onnx_parse w ?b))"
  define tf where "tf = tf_prepare w (onnx_parse w ?b)"
  have r5: "cell_import w s4 = (Inr tf, s5)"
    by (simp add: cell_import_iff cl s4_def s5_def tf_def)
  define s6 where "s6 = after s5 (cell_explore_calls tf)"
  have r6: "cell_explore w tf s5 = (Inr (), s6)"
    by (simp add: cell_explore_iff cl s6_def)
  have fs6: "files s6 ''assets/two.png'' = Some i1" "files s6 ''assets/three.png'' = Some i2"
    using f by (simp_all add: s6_def s5_def s4_def s3_def s2_def s1_def init_def)
  define s7 where "s7 = after s6 (cell_run_calls tf (sample_input w i1) (sample_input w i2))"
  have r7: "cell_run w tf s6 = (Inr (), s7)"
    by (simp add: cell_run_iff fs6 cl s7_def)
  define s8 where "s8 = (after s7 (cell_export_graph_calls tf))
     \<lparr>files := (files s7)(''output/mnist.pb'' \<mapsto> tf_graph w tf)\<rparr>"
  have r8: "cell_export_graph w tf s7 = (Inr (), s8)"
    by (simp add: cell_export_graph_iff cl s8_def)
  have "notebook w ?s0 = (Inr (), s8)"
    unfolding notebook_def by (simp add: bnd_def r1 r2 r3 r4 r5 r6 r7 r8)
  then show ?thesis by (simp add: run_def)
qed

lemma run_completes:
  fixes w :: "'v world"
  assumes nr: "raises w = (\<lambda>_ _. None)"
    and l: "len_train_loader w \<noteq> 0" "len_test_dataset w \<noteq> 0"
    and f: "files0 w ''assets/two.png'' = Some i1" "files0 w ''assets/three.png'' = Some i2"
  shows "\<exists>v. completed w (fst (run w)) (snd (run w)) v i1 i2"
proof -
  have r: "fst (run w) = Inr ()" using assms by (rule run_completes_fst)
  have "run w = (fst (run w), snd (run w))" by simp
  from run_cases[OF this] show ?thesis
  proof (elim disjE exE)
    fix v j1 j2 assume c: "completed w (fst (run w)) (snd (run w)) v j1 j2"
    with f have "j1 = i1" "j2 = i2" by (simp_all add: completed_def)
    with c show ?thesis by blast
  next
    fix k v j1 j2 evs assume "stopped_in w k (fst (run w)) (snd (run w)) v j1 j2 evs"
    with r show ?thesis by (simp add: stopped_in_def)
  qed
qed

lemma calm_world_simps [simp]:
  "raises calm_world = (\<lambda>_ _. None)"
  "files0 calm_world = [''assets/two.png'' \<mapsto> 2, ''assets/three.png'' \<mapsto> 3]"
  "cuda calm_world = False" "train_batches calm_world = 2" "test_batches calm_world = 1"
  "len_train_loader calm_world = 2" "len_test_dataset calm_world = 1000"
  "pickle calm_world = (\<lambda>v. v)" "unpickle calm_world = (\<lambda>v. v)"
  "mnist_files calm_world = 0"
  by (simp_all add: calm_world_def)

lemma run_calm_world: "\<exists>v. completed calm_world (fst (run calm_world)) (snd (run calm_world)) v 2 3"
  by (rule run_completes) simp_all


subsection \<open>The order of the stages in a run\<close>

lemma stage_of_range: "stage_of c = Some n \<Longrightarrow> 1 \<le> n \<and> n \<le> 6"
proof (cases c)
  case (Py x) then show "stage_of c = Some n \<Longrightarrow> ?thesis"
    by (cases x rule: py_stage.cases) (auto split: if_splits)
next
  case (Torch x) then show "stage_of c = Some n \<Longrightarrow> ?thesis"
    by (cases x) auto
next
  case (Module x) then show "stage_of c = Some n \<Longrightarrow> ?thesis"
    by (cases x) auto
next
  case (Model x) then show "stage_of c = Some n \<Longrightarrow> ?thesis"
    by (cases x) auto
qed auto

lemma stages_mem_iff: "n \<in> set (stages evs) \<longleftrightarrow> (\<exists>ev\<in>set evs. stage_of (fst ev) = Some n)"
  by (induction evs) (auto split: option.splits)

lemma cell_stage_sorted: "1 \<le> i \<Longrightarrow> i \<le> j \<Longrightarrow> j \<le> 8 \<Longrightarrow> cell_stage i \<le> cell_stage j"
  unfolding cell_stage_def
  using sorted_nth_mono[of "[1, 2, 3, 4, 5, 5, 6, 6::nat]" "i - 1" "j - 1"] by simp

lemma cells_upto_prefix:
  "j \<le> k \<Longrightarrow> \<exists>cs. cells_upto k w v i1 i2 = cells_upto j w v i1 i2 @ cs"
  unfolding cells_upto_def
  using take_add[of j "k - j" "cells w v i1 i2"] by auto

lemma cells_upto_stage:
  assumes "k \<le> 8" "c \<in> set (cells_upto k w v i1 i2)" "stage_of c = Some n"
  shows "n \<le> cell_stage k"
proof -
  from cells_upto_ok[OF assms(1,2)] obtain j where j: "1 \<le> j" "j \<le> k" "cell_call (cell_stage j) c"
    by blast
  from j(3) assms(3) have "n = cell_stage j" by (simp add: cell_call_def stage_ok_def)
  with cell_stage_sorted[OF j(1,2) assms(1)] show ?thesis by simp
qed

lemma before_first:
  assumes "pre @ ev # post = xs @ rest" "P ev" "\<forall>x\<in>set xs. \<not> P x"
  shows "\<exists>mid. pre = xs @ mid"
  using assms by (auto simp: append_eq_append_conv2 Cons_eq_append_conv)

lemma stores_frame: "stores w fs c p \<noteq> fs p \<Longrightarrow> writes c p"
  by (cases "(w, fs, c)" rule: stores.cases) (auto simp: writes_def split: if_splits)

lemma written_frame: "written w fs evs p \<noteq> fs p \<Longrightarrow> \<exists>ev\<in>set evs. writes (fst ev) p"
proof (induction evs arbitrary: fs)
  case Nil
  then show ?case by simp
next
  case (Cons ev evs)
  let ?fs = "if snd ev = None then stores w fs (fst ev) else fs"
  show ?case
  proof (cases "written w ?fs evs p = ?fs p")
    case True
    with Cons.prems have "stores w fs (fst ev) p \<noteq> fs p" by (auto split: if_splits)
    then show ?thesis by (auto dest: stores_frame)
  next
    case False
    from Cons.IH[OF this] show ?thesis by auto
  qed
qed

lemma run_log:
  fixes w :: "'v world"
  shows "\<exists>k v i1 i2 evs. k \<le> 8 \<and>
     trace (snd (run w)) = ok (cells_upto k w v i1 i2) @ evs \<and>
     (\<forall>ev\<in>set evs. cell_call (cell_stage (Suc k)) (fst ev)) \<and>
     (k = 8 \<longrightarrow> evs = []) \<and>
     (fst (run w) = Inr () \<longleftrightarrow> k = 8) \<and>
     (k = 3 \<longrightarrow> exports_of (loaded_params w v) evs) \<and>
     (\<forall>p. files (snd (run w)) p \<noteq> files_after k w v p \<longrightarrow> (\<exists>ev\<in>set evs. writes (fst ev) p)) \<and>
     files (snd (run w)) = written w (files_after k w v) evs"
proof -
  have "run w = (fst (run w), snd (run w))" by simp
  from run_cases[OF this] show ?thesis
  proof (elim disjE exE)
    fix v i1 i2 assume c: "completed w (fst (run w)) (snd (run w)) v i1 i2"
    show ?thesis
      apply (rule exI[of _ 8], rule exI[of _ v], rule exI[of _ i1], rule exI[of _ i2],
          rule exI[of _ "[]"])
      using c by (simp add: completed_def cells_upto_8 files_after_def)
  next
    fix k v i1 i2 evs assume s: "stopped_in w k (fst (run w)) (snd (run w)) v i1 i2 evs"
    show ?thesis
      apply (rule exI[of _ k], rule exI[of _ v], rule exI[of _ i1], rule exI[of _ i2],
          rule exI[of _ evs])
      using s by (auto simp: stopped_in_def dest: written_frame)
  qed
qed

lemma log_reached:
  assumes k: "k \<le> 8" and ev: "\<forall>ev\<in>set evs. cell_call (cell_stage (Suc k)) (fst ev)"
    and e8: "k = 8 \<longrightarrow> evs = []"
    and x: "x \<in> set (ok (cells_upto k w v i1 i2) @ evs)" "stage_of (fst x) = Some n"
    and j: "j \<le> 8" "cell_stage j < n"
  shows "j \<le> k"
proof (rule ccontr)
  assume "\<not> j \<le> k"
  then have kj: "Suc k \<le> j" by simp
  from x(1) consider "x \<in> set (ok (cells_upto k w v i1 i2))" | "x \<in> set evs" by auto
  then show False
  proof cases
    case 1
    then have "fst x \<in> set (cells_upto k w v i1 i2)" by auto
    from cells_upto_stage[OF k this x(2)] have n: "n \<le> cell_stage k" .
    have "k \<noteq> 0" using 1 by (cases "k = 0") (auto simp: cells_upto_simps)
    then have "cell_stage k \<le> cell_stage j" using kj j(1) by (intro cell_stage_sorted) simp_all
    with n j(2) show False by simp
  next
    case 2
    with ev x(2) have "n = cell_stage (Suc k)" by (auto simp: cell_call_def stage_ok_def)
    moreover have "cell_stage (Suc k) \<le> cell_stage j" using kj j(1) by (intro cell_stage_sorted) simp_all
    ultimately show False using j(2) by simp
  qed
qed

lemma writes_cases:
  assumes "writes c p" "as_written c"
  shows "(p = ''../data'' \<and> c = Data (MNIST ''../data'' True True mnist_transform)) \<or>
         (p = ''output/mnist.pth'' \<and> is_save c) \<or>
         (p = ''output/mnist.onnx'' \<and> is_export c) \<or>
         (p = ''output/mnist.pb'' \<and> (\<exists>tf. c = Model (ExportGraph tf ''output/mnist.pb'')))"
  using assms
  by (auto simp: writes_def split: call.splits model_call.splits data_call.splits)

lemma is_save_stage: "is_save c \<Longrightarrow> stage_of c = Some 3"
  by (erule is_save.elims) simp

lemma is_export_stage: "is_export c \<Longrightarrow> stage_of c = Some 4"
  by (erule is_export.elims) simp

lemma run_sorted:
  "sorted (stages (trace (snd (run w))))" "set (stages (trace (snd (run w)))) \<subseteq> {1..6}"
proof -
  from run_log[of w] obtain k v i1 i2 evs where k: "k \<le> 8"
    and tr: "trace (snd (run w)) = ok (cells_upto k w v i1 i2) @ evs"
    and ev: "\<forall>ev\<in>set evs. cell_call (cell_stage (Suc k)) (fst ev)"
    and e8: "k = 8 \<longrightarrow> evs = []"
    by blast
  from cells_upto_sorted[OF k, of w v i1 i2]
  have s: "sorted (stages (ok (cells_upto k w v i1 i2)))"
    and le: "\<forall>n\<in>set (stages (ok (cells_upto k w v i1 i2))). n \<le> cell_stage k" by simp_all
  show "sorted (stages (trace (snd (run w))))"
  proof (cases "k = 8")
    case True
    with e8 s show ?thesis by (simp add: tr)
  next
    case False
    with k have k8: "k < 8" by simp
    have "\<forall>n\<in>set (stages (ok (cells_upto k w v i1 i2))). n \<le> cell_stage (Suc k)"
    proof (cases "k = 0")
      case True then show ?thesis by (simp add: cells_upto_simps)
    next
      case False
      with cell_stage_mono[OF k8] le show ?thesis by fastforce
    qed
    from sorted_stages_step(1)[OF s this ev] show ?thesis by (simp add: tr)
  qed
  show "set (stages (trace (snd (run w)))) \<subseteq> {1..6}"
    using stage_of_range by (fastforce simp: stages_mem_iff)
qed

lemma notebook_stages: "set (stages (ok (notebook_calls w v i1 i2))) = {1..6}"
proof
  show "set (stages (ok (notebook_calls w v i1 i2))) \<subseteq> {1..6}"
    using stage_of_range by (fastforce simp: stages_mem_iff)
  have 1: "Py (Import ''torch'') \<in> set (notebook_calls w v i1 i2)"
    by (simp add: cells_upto_simps cell_define_calls_def)
  have 2: "Torch CudaIsAvailable \<in> set (notebook_calls w v i1 i2)"
    by (simp add: cells_upto_simps cell_train_calls_def cell_train_setup_calls_def)
  have 3: "Module StateDict \<in> set (notebook_calls w v i1 i2)"
    by (simp add: cells_upto_simps cell_save_calls_def)
  have 4: "Py (Import ''torch.autograd'') \<in> set (notebook_calls w v i1 i2)"
    by (simp add: cells_upto_simps cell_export_calls_def)
  have 5: "Py (Import ''onnx'') \<in> set (notebook_calls w v i1 i2)"
    by (simp add: cells_upto_simps cell_import_calls_def)
  have 6: "Model (ExportGraph (tf_rep_of w v) ''output/mnist.pb'') \<in> set (notebook_calls w v i1 i2)"
    by (simp add: cells_upto_simps cell_export_graph_calls_def)
  have "n \<in> set (stages (ok (notebook_calls w v i1 i2)))" if "n \<in> {1..6}" for n
  proof -
    from that consider "n = 1" | "n = 2" | "n = 3" | "n = 4" | "n = 5" | "n = 6"
      by (auto simp: eval_nat_numeral le_Suc_eq)
    then show ?thesis
    proof cases
      case 1 with \<open>Py (Import ''torch'') \<in> _\<close> show ?thesis
        unfolding stages_mem_iff by (intro bexI[of _ "(Py (Import ''torch''), None)"]) simp_all
    next
      case 2 with \<open>Torch CudaIsAvailable \<in> _\<close> show ?thesis
        unfolding stages_mem_iff by (intro bexI[of _ "(Torch CudaIsAvailable, None)"]) simp_all
    next
      case 3 with \<open>Module StateDict \<in> _\<close> show ?thesis
        unfolding stages_mem_iff by (intro bexI[of _ "(Module StateDict, None)"]) simp_all
    next
      case 4 with \<open>Py (Import ''torch.autograd'') \<in> _\<close> show ?thesis
        unfolding stages_mem_iff by (intro bexI[of _ "(Py (Import ''torch.autograd''), None)"]) simp_all
    next
      case 5 with \<open>Py (Import ''onnx'') \<in> _\<close> show ?thesis
        unfolding stages_mem_iff by (intro bexI[of _ "(Py (Import ''onnx''), None)"]) simp_all
    next
      case 6 with \<open>Model (ExportGraph (tf_rep_of w v) ''output/mnist.pb'') \<in> _\<close> show ?thesis
        unfolding stages_mem_iff
        by (intro bexI[of _ "(Model (ExportGraph (tf_rep_of w v) ''output/mnist.pb''), None)"]) simp_all
    qed
  qed
  then show "{1..6} \<subseteq> set (stages (ok (notebook_calls w v i1 i2)))" by blast
qed

lemma run_completed_stages:
  assumes "fst (run w) = Inr ()"
  shows "set (stages (trace (snd (run w)))) = {1..6}"
proof -
  from run_log[of w] assms obtain v i1 i2 evs where
    "trace (snd (run w)) = ok (cells_upto 8 w v i1 i2) @ evs" "evs = []"
    by auto
  then show ?thesis by (simp add: cells_upto_8 notebook_stages)
qed

lemma log_before:
  assumes k: "k \<le> 8" and ev: "\<forall>ev\<in>set evs. cell_call (cell_stage (Suc k)) (fst ev)"
    and e8: "k = 8 \<longrightarrow> evs = []"
    and tr: "ok (cells_upto k w v i1 i2) @ evs = pre @ x # post"
    and x: "stage_of (fst x) = Some n"
    and j: "j \<le> 8" "cell_stage j < n"
  shows "j \<le> k" "\<exists>mid. pre = ok (cells_upto j w v i1 i2) @ mid"
proof -
  have "x \<in> set (ok (cells_upto k w v i1 i2) @ evs)" unfolding tr by simp
  from log_reached[OF k ev e8 this x j] show jk: "j \<le> k" .
  from cells_upto_prefix[OF jk, of w v i1 i2] obtain cs where
    "cells_upto k w v i1 i2 = cells_upto j w v i1 i2 @ cs" ..
  with tr have eq: "pre @ x # post = ok (cells_upto j w v i1 i2) @ (ok cs @ evs)"
    by (simp add: ok_def)
  have "\<forall>y\<in>set (ok (cells_upto j w v i1 i2)). \<not> stage_of (fst y) = Some n"
  proof
    fix y assume "y \<in> set (ok (cells_upto j w v i1 i2))"
    then have "fst y \<in> set (cells_upto j w v i1 i2)" by auto
    from cells_upto_stage[OF j(1) this] j(2) show "\<not> stage_of (fst y) = Some n" by fastforce
  qed
  from before_first[OF eq, where P = "\<lambda>y. stage_of (fst y) = Some n", OF x this]
  show "\<exists>mid. pre = ok (cells_upto j w v i1 i2) @ mid" .
qed

lemma pth_kept:
  assumes k: "3 \<le> k" "k \<le> 8" and ev: "\<forall>ev\<in>set evs. cell_call (cell_stage (Suc k)) (fst ev)"
    and e8: "k = 8 \<longrightarrow> evs = []"
    and fs: "\<forall>p. fs p \<noteq> files_after k w v p \<longrightarrow> (\<exists>ev\<in>set evs. writes (fst ev) p)"
  shows "fs ''output/mnist.pth'' = Some (pickle w v)"
proof -
  have fa: "files_after k w v ''output/mnist.pth'' = Some (pickle w v)"
    using k by (simp add: files_after_def final_files_def)
  have "\<not> writes (fst x) ''output/mnist.pth''" if x: "x \<in> set evs" for x
  proof
    assume wr: "writes (fst x) ''output/mnist.pth''"
    from x e8 k have k8: "k < 8" by (cases "k = 8") auto
    from ev x have cc: "cell_call (cell_stage (Suc k)) (fst x)" by simp
    with writes_cases[OF wr] have "is_save (fst x)" by (auto simp: cell_call_def)
    from is_save_stage[OF this] cc have "cell_stage (Suc k) = 3" by (simp add: cell_call_def stage_ok_def)
    moreover have "cell_stage 4 \<le> cell_stage (Suc k)" using k k8 by (intro cell_stage_sorted) simp_all
    ultimately show False by simp
  qed
  with fs fa show ?thesis by (metis)
qed

lemma save_after_training:
  assumes "trace (snd (run w)) = pre @ x # post" "is_save (fst x)"
  shows "\<exists>mid. pre = ok (cell_define_calls @ cell_train_calls w) @ mid"
proof -
  from run_log[of w] obtain k v i1 i2 evs where k: "k \<le> 8"
    and tr: "trace (snd (run w)) = ok (cells_upto k w v i1 i2) @ evs"
    and ev: "\<forall>ev\<in>set evs. cell_call (cell_stage (Suc k)) (fst ev)"
    and e8: "k = 8 \<longrightarrow> evs = []"
    by blast
  from tr assms(1) have eq: "ok (cells_upto k w v i1 i2) @ evs = pre @ x # post" by simp
  have "cell_stage 2 < 3" by simp
  from log_before(2)[OF k ev e8 eq is_save_stage[OF assms(2)] _ this]
  show ?thesis by (simp add: cells_upto_simps)
qed

lemma export_after_save:
  assumes "trace (snd (run w)) = pre @ x # post" "is_export (fst x)"
  shows "\<exists>v mid. pre = ok (cell_define_calls @ cell_train_calls w @ cell_save_calls v) @ mid \<and>
     files (snd (run w)) ''output/mnist.pth'' = Some (pickle w v)"
proof -
  from run_log[of w] obtain k v i1 i2 evs where k: "k \<le> 8"
    and tr: "trace (snd (run w)) = ok (cells_upto k w v i1 i2) @ evs"
    and ev: "\<forall>ev\<in>set evs. cell_call (cell_stage (Suc k)) (fst ev)"
    and e8: "k = 8 \<longrightarrow> evs = []"
    and fs: "\<forall>p. files (snd (run w)) p \<noteq> files_after k w v p \<longrightarrow> (\<exists>ev\<in>set evs. writes (fst ev) p)"
    by blast
  from tr assms(1) have eq: "ok (cells_upto k w v i1 i2) @ evs = pre @ x # post" by simp
  have "cell_stage 3 < 4" by simp
  from log_before[OF k ev e8 eq is_export_stage[OF assms(2)] _ this]
  obtain mid where k3: "3 \<le> k" and pre: "pre = ok (cells_upto 3 w v i1 i2) @ mid" by auto
  from pth_kept[OF k3 k ev e8 fs] pre show ?thesis
    by (auto simp: cells_upto_simps)
qed

lemma notebook_calls_save:
  "\<exists>post. notebook_calls w v i1 i2 =
     (cell_define_calls @ cell_train_calls w @ [Module StateDict])
     @ Model (TorchSave v ''output/mnist.pth'') # post"
  by (simp add: cells_upto_simps cell_save_calls_def)

lemma notebook_calls_export:
  "\<exists>mid post. notebook_calls w v i1 i2 =
     (cell_define_calls @ cell_train_calls w @ cell_save_calls v @ mid)
     @ Model (OnnxExport \<lparr>params = loaded_params w v, training = True\<rparr> (dummy_of w)
         ''output/mnist.onnx'') # post"
  apply (rule exI[of _ "Py (Import ''torch.autograd'') # Net_init_calls @
     [Model (TorchLoad ''output/mnist.pth''), Model (LoadStateDict (loaded_params w v)),
      Torch (Randn [1, 1, 28, 28]), Torch Variable]"])
  apply (simp add: cells_upto_simps cell_export_calls_def)
  done


subsection \<open>The calls of the exporter in a run\<close>

lemma no_export_cell:
  assumes "\<forall>c\<in>set cs. cell_call j c" "j \<noteq> 4"
  shows "filter (is_export \<circ> fst) (ok cs) = []"
proof -
  have "\<not> is_export c" if "c \<in> set cs" for c
  proof
    assume "is_export c"
    from is_export_stage[OF this] assms(1) that have "j = 4"
      by (auto simp: cell_call_def stage_ok_def)
    with assms(2) show False by simp
  qed
  then show ?thesis by (auto simp: filter_empty_conv)
qed

lemma no_export_events:
  assumes "\<forall>ev\<in>set evs. cell_call j (fst ev)" "j \<noteq> 4"
  shows "\<forall>ev\<in>set evs. \<not> is_export (fst ev)"
proof
  fix ev assume ev: "ev \<in> set evs"
  show "\<not> is_export (fst ev)"
  proof
    assume "is_export (fst ev)"
    from is_export_stage[OF this] assms(1) ev have "j = 4"
      by (auto simp: cell_call_def stage_ok_def)
    with assms(2) show False by simp
  qed
qed

lemma cell_export_calls_exports:
  "filter (is_export \<circ> fst) (ok (cell_export_calls sd x)) =
     [(Model (OnnxExport \<lparr>params = sd, training = True\<rparr> x ''output/mnist.onnx''), None)]"
  by (simp add: cell_export_calls_def Net_init_calls_def)

lemma cells_upto_3_exports: "filter (is_export \<circ> fst) (ok (cells_upto 3 w v i1 i2)) = []"
  by (simp add: cells_upto_simps
      no_export_cell[of _ 1, OF ballI[OF cell_define_calls_ok]]
      no_export_cell[of _ 2, OF ballI[OF cell_train_calls_ok]]
      no_export_cell[of _ 3, OF ballI[OF cell_save_calls_ok]])

lemma cells_upto_4_exports:
  "filter (is_export \<circ> fst) (ok (cells_upto 4 w v i1 i2)) =
     [(Model (OnnxExport \<lparr>params = loaded_params w v, training = True\<rparr> (dummy_of w)
         ''output/mnist.onnx''), None)]"
  by (simp add: cells_upto_simps(5) cells_upto_3_exports cell_export_calls_exports)

lemma notebook_calls_exports:
  "filter (is_export \<circ> fst) (ok (notebook_calls w v i1 i2)) =
     [(Model (OnnxExport \<lparr>params = loaded_params w v, training = True\<rparr> (dummy_of w)
         ''output/mnist.onnx''), None)]"
  by (simp add: cells_upto_simps(6-9) cells_upto_4_exports
      no_export_cell[of _ 5, OF ballI[OF cell_import_calls_ok]]
      no_export_cell[of _ 5, OF ballI[OF cell_explore_calls_ok]]
      no_export_cell[of _ 6, OF ballI[OF cell_run_calls_ok]]
      no_export_cell[of _ 6, OF ballI[OF cell_export_graph_calls_ok]])

lemma cells_upto_exports:
  assumes "k \<le> 8"
  shows "filter (is_export \<circ> fst) (ok (cells_upto k w v i1 i2)) =
     (if k \<le> 3 then []
      else [(Model (OnnxExport \<lparr>params = loaded_params w v, training = True\<rparr> (dummy_of w)
         ''output/mnist.onnx''), None)])"
proof (cases "k \<le> 3")
  case True
  from cells_upto_prefix[OF True, of w v i1 i2] obtain cs where
    "cells_upto 3 w v i1 i2 = cells_upto k w v i1 i2 @ cs" ..
  with cells_upto_3_exports[of w v i1 i2] True show ?thesis by simp
next
  case False
  then have "4 \<le> k" by simp
  from cells_upto_prefix[OF this, of w v i1 i2] obtain cs1 where
    1: "cells_upto k w v i1 i2 = cells_upto 4 w v i1 i2 @ cs1" ..
  from cells_upto_prefix[OF assms, of w v i1 i2] obtain cs2 where
    2: "notebook_calls w v i1 i2 = cells_upto k w v i1 i2 @ cs2" unfolding cells_upto_8 ..
  from notebook_calls_exports[of w v i1 i2] have "filter (is_export \<circ> fst) (ok cs1) = []"
    unfolding 2 1 by (simp add: cells_upto_4_exports)
  with False show ?thesis by (simp add: 1 cells_upto_4_exports)
qed

lemma save_in_cells_upto:
  "3 \<le> k \<Longrightarrow> (Model (TorchSave v ''output/mnist.pth''), None) \<in> set (ok (cells_upto k w v i1 i2))"
  using cells_upto_prefix[of 3 k w v i1 i2]
  by (auto simp: cells_upto_simps cell_save_calls_def)

lemma cell_stage_4: "k < 8 \<Longrightarrow> cell_stage (Suc k) = 4 \<Longrightarrow> k = 3"
  by (cases rule: cells_upto_cases[of k]) (simp_all add: cell_stage_def)

lemma run_exports:
  fixes w :: "'v world"
  shows "\<exists>v. length (filter (is_export \<circ> fst) (trace (snd (run w)))) \<le> 1 \<and>
     (\<forall>ev\<in>set (trace (snd (run w))). is_export (fst ev) \<longrightarrow>
        (\<exists>x. fst ev = Model (OnnxExport \<lparr>params = loaded_params w v, training = True\<rparr> x
                 ''output/mnist.onnx'')) \<and>
        (Model (TorchSave v ''output/mnist.pth''), None) \<in> set (trace (snd (run w))) \<and>
        files (snd (run w)) ''output/mnist.pth'' = Some (pickle w v)) \<and>
     (fst (run w) = Inr () \<longrightarrow>
        filter (is_export \<circ> fst) (trace (snd (run w))) =
          [(Model (OnnxExport \<lparr>params = loaded_params w v, training = True\<rparr> (dummy_of w)
              ''output/mnist.onnx''), None)] \<and>
        files (snd (run w)) ''output/mnist.onnx'' =
          Some (onnx_bytes w \<lparr>params = loaded_params w v, training = True\<rparr> (dummy_of w)))"
proof -
  let ?tr = "trace (snd (run w))"
  from run_log[of w] obtain k v i1 i2 evs where k: "k \<le> 8"
    and tr: "?tr = ok (cells_upto k w v i1 i2) @ evs"
    and ev: "\<forall>ev\<in>set evs. cell_call (cell_stage (Suc k)) (fst ev)"
    and e8: "k = 8 \<longrightarrow> evs = []"
    and r: "fst (run w) = Inr () \<longleftrightarrow> k = 8"
    and x3: "k = 3 \<longrightarrow> exports_of (loaded_params w v) evs"
    and fs: "\<forall>p. files (snd (run w)) p \<noteq> files_after k w v p \<longrightarrow> (\<exists>ev\<in>set evs. writes (fst ev) p)"
    by blast
  let ?e = "(Model (OnnxExport \<lparr>params = loaded_params w v, training = True\<rparr> (dummy_of w)
              ''output/mnist.onnx''), None) :: 'v event"
  note pre = cells_upto_exports[OF k, of w v i1 i2]
  have none: "\<forall>ev\<in>set evs. \<not> is_export (fst ev)" if "k \<noteq> 3"
  proof (cases "k = 8")
    case True with e8 show ?thesis by simp
  next
    case False
    with k have k8: "k < 8" by simp
    have "cell_stage (Suc k) \<noteq> 4"
      using cell_stage_4[OF k8] that by blast
    with ev show ?thesis by (rule no_export_events)
  qed
  have ex: "exports_of (loaded_params w v) evs" if "3 \<le> k"
    using x3 none[THEN exports_of_none] by (cases "k = 3") simp_all
  have few: "length (filter (is_export \<circ> fst) ?tr) \<le> 1"
  proof (cases "k \<le> 3")
    case True
    show ?thesis
    proof (cases "k = 3")
      case True
      with x3 pre show ?thesis by (simp add: tr exports_of_def)
    next
      case False
      with none pre True show ?thesis by (simp add: tr filter_empty_conv[THEN iffD2])
    qed
  next
    case False
    then have "k \<noteq> 3" by simp
    from none[OF this] pre False show ?thesis by (simp add: tr filter_empty_conv[THEN iffD2])
  qed
  have form: "(\<exists>x. fst x0 = Model (OnnxExport \<lparr>params = loaded_params w v, training = True\<rparr> x
                 ''output/mnist.onnx'')) \<and>
        (Model (TorchSave v ''output/mnist.pth''), None) \<in> set ?tr \<and>
        files (snd (run w)) ''output/mnist.pth'' = Some (pickle w v)"
    if x0: "x0 \<in> set ?tr" "is_export (fst x0)" for x0
  proof -
    from x0(1) obtain pre0 post0 where "?tr = pre0 @ x0 # post0" by (auto simp: in_set_conv_decomp)
    with tr have eq: "ok (cells_upto k w v i1 i2) @ evs = pre0 @ x0 # post0" by simp
    have "cell_stage 3 < 4" by simp
    from log_before(1)[OF k ev e8 eq is_export_stage[OF x0(2)] _ this] have k3: "3 \<le> k" by simp
    from pth_kept[OF k3 k ev e8 fs] have p: "files (snd (run w)) ''output/mnist.pth'' = Some (pickle w v)" .
    from save_in_cells_upto[of k v w i1 i2, OF k3] have s: "(Model (TorchSave v ''output/mnist.pth''), None) \<in> set ?tr"
      by (simp add: tr)
    from x0(1) consider "x0 \<in> set (ok (cells_upto k w v i1 i2))" | "x0 \<in> set evs" by (auto simp: tr)
    then have "\<exists>x. fst x0 = Model (OnnxExport \<lparr>params = loaded_params w v, training = True\<rparr> x
                 ''output/mnist.onnx'')"
    proof cases
      case 1
      with x0(2) have "x0 \<in> set (filter (is_export \<circ> fst) (ok (cells_upto k w v i1 i2)))" by simp
      then show ?thesis unfolding pre by (auto split: if_splits)
    next
      case 2
      with ex[OF k3] x0(2) show ?thesis by (auto simp: exports_of_def)
    qed
    with p s show ?thesis by simp
  qed
  have fin: "filter (is_export \<circ> fst) ?tr = [?e] \<and>
        files (snd (run w)) ''output/mnist.onnx'' =
          Some (onnx_bytes w \<lparr>params = loaded_params w v, training = True\<rparr> (dummy_of w))"
    if "fst (run w) = Inr ()"
  proof -
    from that r e8 have k8: "k = 8" and e: "evs = []" by simp_all
    from fs have "files (snd (run w)) = final_files w v"
      by (auto simp: k8 e files_after_def)
    then show ?thesis
      using pre by (simp add: tr k8 e final_files_def onnx_file_def)
  qed
  show ?thesis
    apply (rule exI[of _ v])
    using few form fin by blast
qed

lemma notebook_calls_randn:
  "notebook_calls w v i1 i2 ! (length (cell_train_calls w) + 15) = Torch (Randn [1, 1, 28, 28])"
proof -
  let ?pre = "cells_upto 3 w v i1 i2 @ Py (Import ''torch.autograd'') # Net_init_calls @
     [Model (TorchLoad ''output/mnist.pth''), Model (LoadStateDict (loaded_params w v))]"
  have l: "length ?pre = length (cell_train_calls w) + 15"
    by (simp add: length_cells_upto_3 Net_init_calls_def)
  have "\<exists>post. notebook_calls w v i1 i2 = ?pre @ Torch (Randn [1, 1, 28, 28]) # post"
    by (simp add: cells_upto_simps(5-9) cell_export_calls_def)
  then obtain post where "notebook_calls w v i1 i2 = ?pre @ Torch (Randn [1, 1, 28, 28]) # post" ..
  then have "notebook_calls w v i1 i2 ! length ?pre = Torch (Randn [1, 1, 28, 28])"
    by (simp only: nth_append_length)
  then show ?thesis unfolding l .
qed

lemma run_randn:
  assumes "fst (run w) = Inr ()"
  shows "trace (snd (run w)) ! (length (cell_train_calls w) + 15) = (Torch (Randn [1, 1, 28, 28]), None)"
proof -
  from run_log[of w] assms obtain v i1 i2 where
    tr: "trace (snd (run w)) = ok (notebook_calls w v i1 i2)"
    by (auto simp: cells_upto_8)
  have "length (cell_train_calls w) + 15 < length (notebook_calls w v i1 i2)"
    by (simp add: cells_upto_simps cell_define_calls_def cell_save_calls_def
        cell_export_calls_def Net_init_calls_def)
  then show ?thesis
    unfolding tr ok_def by (simp add: notebook_calls_randn)
qed

lemma run_export_args:
  assumes "(Model (OnnxExport m x p), r) \<in> set (trace (snd (run w)))"
  shows "shape x = [1, 1, 28, 28]" "p = ''output/mnist.onnx''"
  using run_envelope(3)[of w] assms by fastforce+

lemma lossy_world_simps [simp]:
  "raises lossy_world = (\<lambda>_ _. None)"
  "files0 lossy_world = [''assets/two.png'' \<mapsto> 2, ''assets/three.png'' \<mapsto> 3]"
  "len_train_loader lossy_world = 2" "len_test_dataset lossy_world = 1000"
  "pickle lossy_world = (\<lambda>v. v)" "unpickle lossy_world = Suc"
  by (simp_all add: lossy_world_def calm_world_def)



subsection \<open>A run that fails inside the block of a \<open>with\<close>\<close>

lemma with_world_simps [simp]:
  "raises (with_world x) k c =
     (if c = Data (LoaderIter TestLoader) then Some (RuntimeError ''e0'')
      else if c = Torch NoGradExit then x else None)"
  "files0 (with_world x) = [''assets/two.png'' \<mapsto> 2, ''assets/three.png'' \<mapsto> 3]"
  "cuda (with_world x) = False" "train_batches (with_world x) = 0"
  "test_batches (with_world x) = 0" "mnist_files (with_world x) = 0"
  by (simp_all add: with_world_def calm_world_def)

lemma call_eval:
  "raises w (length (trace s)) c = None \<Longrightarrow> call w c s = (Inr (), after s [c])"
  by (simp add: call_Inr_iff)

lemma call_fail:
  "raises w (length (trace s)) c = Some e \<Longrightarrow> call w c s = (Inl e, record_call (c, Some e) s)"
  by (simp add: call_def emit_def)

lemma record_call_ok: "record_call (c, None) s = after s [c]"
  by (simp add: record_call_def after_def)

lemma bnd_succ: "m s = (Inr a, s1) \<Longrightarrow> bnd m f s = f a s1"
  by (simp add: bnd_def)

lemma bnd_fail: "m s = (Inl e, s') \<Longrightarrow> bnd m f s = (Inl e, s')"
  by (simp add: bnd_def)

lemma run_with_world_define:
  "cell_define (with_world x) (init (with_world x)) =
     (Inr (), after (init (with_world x)) cell_define_calls)"
  by (simp add: cell_define_iff cell_define_calls_def call_ok_def)

lemma add_32: "k + 32 = Suc (Suc (Suc (Suc (Suc (Suc (Suc (Suc (Suc (Suc (Suc (Suc (Suc (Suc (Suc (Suc (Suc (Suc (Suc (Suc (Suc (Suc (Suc (Suc (Suc (Suc (Suc (Suc (Suc (Suc (Suc (Suc k)))))))))))))))))))))))))))))))"
  by simp

lemma run_with_world_setup:
  "files s ''../data'' = None \<Longrightarrow>
   cell_train (with_world x) s =
     epoch_loop (with_world x) args
       \<lparr>params = fresh_params (with_world x) (length (trace s) + 32), training = True\<rparr> ''cpu''
       ((after s (cell_train_setup_calls (with_world x)))
          \<lparr>files := with_dataset (with_world x) (files s)\<rparr>)"
  unfolding add_32
  apply (simp add: cell_train_def bnd_def call_eval make_parser_def parse_args_def
      make_transform_def Net_init_def ret_def)
  apply (simp add: datasets_MNIST_def Let_def record_call_ok with_dataset_def
      cell_train_setup_calls_def make_parser_calls_def make_transform_calls_def
      Net_init_calls_def device_of_def kwargs_of_def
      split: option.splits)
  done

lemma run_with_world_train:
  "\<exists>m. train (with_world x) args model ''cpu'' 1 s =
     (Inr m, after s (train_calls (with_world x) args ''cpu'' 1))"
proof -
  have "clear_from (with_world x) s (train_calls (with_world x) args ''cpu'' 1)"
    by (simp add: train_calls_def for_batches_calls_def call_ok_def)
  with train_succ[of "with_world x" args model "''cpu''" 1 s
      "after s (train_calls (with_world x) args ''cpu'' 1)"]
  show ?thesis by simp
qed

lemma run_with_world_test:
  "test (with_world x) a m ''cpu'' s =
     (Inl (case x of None \<Rightarrow> RuntimeError ''e0'' | Some e1 \<Rightarrow> e1),
      s\<lparr>trace := trace s @ ok [Module ModelEval, Torch NoGradInit, Torch NoGradEnter] @
         [(Data (LoaderIter TestLoader), Some (RuntimeError ''e0'')), (Torch NoGradExit, x)]\<rparr>)"
  by (cases x)
     (simp_all add: test_def with_no_grad_def for_batches_def bnd_def call_def emit_def
        record_call_def)

lemma run_with_world:
  "run (with_world x) =
     (Inl (case x of None \<Rightarrow> RuntimeError ''e0'' | Some e1 \<Rightarrow> e1),
      \<lparr>trace =
         ok (cell_define_calls @ cell_train_setup_calls (with_world x) @
             train_calls (with_world x) args ''cpu'' 1 @
             [Module ModelEval, Torch NoGradInit, Torch NoGradEnter]) @
         [(Data (LoaderIter TestLoader), Some (RuntimeError ''e0'')), (Torch NoGradExit, x)],
       files = [''assets/two.png'' \<mapsto> 2, ''assets/three.png'' \<mapsto> 3, ''../data'' \<mapsto> 0]\<rparr>)"
proof -
  let ?w = "with_world x"
  let ?s1 = "after (init ?w) cell_define_calls"
  let ?m0 = "\<lparr>params = fresh_params ?w (length (trace ?s1) + 32), training = True\<rparr>"
  let ?s2 = "(after ?s1 (cell_train_setup_calls ?w))\<lparr>files := with_dataset ?w (files ?s1)\<rparr>"
  let ?s3 = "after ?s2 (train_calls ?w args ''cpu'' 1)"
  have nd: "files ?s1 ''../data'' = None" by (simp add: init_def)
  from run_with_world_train[of x ?m0 ?s2] obtain m where
    tr: "train ?w args ?m0 ''cpu'' 1 ?s2 = (Inr m, ?s3)" ..
  have e: "[1..<epochs args + 1] = 1 # [2..<61]" by (simp add: upt_conv_Cons)
  let ?E = "case x of None \<Rightarrow> RuntimeError ''e0'' | Some e1 \<Rightarrow> e1"
  let ?S = "?s3\<lparr>trace := trace ?s3 @ ok [Module ModelEval, Torch NoGradInit, Torch NoGradEnter] @
         [(Data (LoaderIter TestLoader), Some (RuntimeError ''e0'')), (Torch NoGradExit, x)]\<rparr>"
  have "epoch_loop ?w args ?m0 ''cpu'' ?s2 = (Inl ?E, ?S)"
    by (simp only: epoch_loop_def e for_each.simps bnd_def tr prod.case sum.case
        run_with_world_test)
  then have ct: "cell_train ?w ?s1 = (Inl ?E, ?S)"
    by (simp only: run_with_world_setup[OF nd])
  have "run ?w = (Inl ?E, ?S)"
    by (simp only: run_def notebook_def bnd_def run_with_world_define ct prod.case sum.case)
  then show ?thesis
    by (simp add: init_def with_dataset_def)
qed

lemma length_setup [simp]: "length (cell_train_setup_calls w) = 35"
  by (simp add: cell_train_setup_calls_def make_parser_calls_def make_transform_calls_def
      Net_init_calls_def)

lemma with_world_log:
  "trace (snd (run (with_world x))) ! 45 = (Data (LoaderIter TestLoader), Some (RuntimeError ''e0''))"
  "trace (snd (run (with_world x))) ! 46 = (Torch NoGradExit, x)"
  "length (trace (snd (run (with_world x)))) = 47"
  "fst (run (with_world x)) = Inl (case x of None \<Rightarrow> RuntimeError ''e0'' | Some e1 \<Rightarrow> e1)"
proof -
  let ?A = "cell_define_calls @ cell_train_setup_calls (with_world x) @
             train_calls (with_world x) args ''cpu'' 1 @
             [Module ModelEval, Torch NoGradInit, Torch NoGradEnter] :: nat call list"
  have l: "length (ok ?A) = 45"
    by (simp add: cell_define_calls_def train_calls_def for_batches_calls_def)
  have tr: "trace (snd (run (with_world x))) =
      ok ?A @ [(Data (LoaderIter TestLoader), Some (RuntimeError ''e0'')), (Torch NoGradExit, x)]"
    by (simp add: run_with_world)
  show "trace (snd (run (with_world x))) ! 45 = (Data (LoaderIter TestLoader), Some (RuntimeError ''e0''))"
    unfolding tr using nth_append_length[of "ok ?A"] unfolding l by simp
  show "trace (snd (run (with_world x))) ! 46 = (Torch NoGradExit, x)"
    unfolding tr using l by (simp only: nth_append) simp
  show "length (trace (snd (run (with_world x)))) = 47"
    unfolding tr using l by (simp only: length_append) simp
  show "fst (run (with_world x)) = Inl (case x of None \<Rightarrow> RuntimeError ''e0'' | Some e1 \<Rightarrow> e1)"
    by (simp add: run_with_world)
qed

lemma raised_cases:
  fixes w :: "'v world"
  assumes i: "i < length (trace (snd (run w)))" and e: "snd (trace (snd (run w)) ! i) = Some e"
  shows "(Suc i = length (trace (snd (run w))) \<and> fst (run w) = Inl e \<and>
          (inside False (take i (trace (snd (run w)))) \<longrightarrow>
             fst (trace (snd (run w)) ! i) = Torch NoGradExit)) \<or>
         (Suc (Suc i) = length (trace (snd (run w))) \<and>
          inside False (take i (trace (snd (run w)))) \<and>
          fst (trace (snd (run w)) ! i) \<noteq> Torch NoGradExit \<and>
          fst (trace (snd (run w)) ! Suc i) = Torch NoGradExit \<and>
          snd (trace (snd (run w)) ! Suc i) = raises w (Suc i) (Torch NoGradExit) \<and>
          fst (run w) =
            Inl (case raises w (Suc i) (Torch NoGradExit) of None \<Rightarrow> e | Some e1 \<Rightarrow> e1))"
proof -
  let ?tr = "trace (snd (run w))"
  note oc = run_envelope(1)[of w]
  have nq: "\<not> quiet ?tr" using i e by (auto dest: quiet_nth)
  with oc obtain e' where r: "fst (run w) = Inl e'"
    by (cases "fst (run w)") (auto simp: outcome_ok_def)
  with oc consider "aborted e' ?tr" | "aborted_in_with e' ?tr"
    by (auto simp: outcome_ok_def)
  then show ?thesis
  proof cases
    case 1
    then obtain pre c where tr: "?tr = pre @ [(c, Some e')]" and q: "quiet pre"
      and ins: "inside False pre \<longrightarrow> c = Torch NoGradExit"
      unfolding aborted_def by blast
    from aborted_raise_last[OF 1 i e] have l: "Suc i = length ?tr" "e = e'" by simp_all
    then have il: "i = length pre" by (simp add: tr)
    have "take i ?tr = pre" "fst (?tr ! i) = c" by (simp_all add: tr il)
    with l r ins show ?thesis by simp
  next
    case 2
    then obtain pre c e0 x where
      tr: "?tr = pre @ [(c, Some e0), (Torch NoGradExit, x)]" and q: "quiet pre"
      and ins: "inside False pre" and c: "c \<noteq> Torch NoGradExit"
      and e': "e' = (case x of None \<Rightarrow> e0 | Some e1 \<Rightarrow> e1)"
      unfolding aborted_in_with_def by blast
    have "\<not> i < length pre"
    proof
      assume "i < length pre"
      with q e show False by (simp add: tr nth_append quiet_nth)
    qed
    with i have "i = length pre \<or> i = Suc (length pre)" by (simp add: tr) arith
    then show ?thesis
    proof
      assume il: "i = length pre"
      have t: "take i ?tr = pre" "?tr ! i = (c, Some e0)" "?tr ! Suc i = (Torch NoGradExit, x)"
        "Suc (Suc i) = length ?tr"
        by (simp_all add: tr il nth_append)
      from t(2) e have ee: "e = e0" by simp
      have "Suc i < length ?tr" using t(4) by simp
      from exact_nth[OF run_envelope(2) this] t(3)
      have x: "x = raises w (Suc i) (Torch NoGradExit)" by simp
      from t ins c r e' x show ?thesis unfolding ee by simp
    next
      assume il: "i = Suc (length pre)"
      have t: "?tr ! i = (Torch NoGradExit, x)" "Suc i = length ?tr"
        by (simp_all add: tr il nth_append)
      with e have "x = Some e" by simp
      with e' r t show ?thesis by simp
    qed
  qed
qed


section \<open>The claims\<close>

subsection \<open>The order of the stages\<close>

text \<open>
  Claim C1.  The six stages run in the order in which the notebook lists them.  For
  every world, the log of the run is the calls of the first \<open>k\<close> cells, each cell run
  to its end and in the order of the notebook, followed by calls of cell \<open>k + 1\<close> only,
  and the run returns normally exactly when \<open>k\<close> is 8; the stages of the logged calls
  never decrease along the log, and a run that returns has calls of each of the six
  stages.  In particular: before any call of \<open>torch.save\<close>, the log holds all the calls
  of cell 1 and of cell 2, that is of the sixty epochs of training and testing, none of
  which raised; and before any call of \<open>torch.onnx.export\<close>, it holds moreover the calls
  of cell 3, among them \<open>torch.save\<close>, which did not raise, and the checkpoint file is
  there with the pickled parameters that were saved.
\<close>

theorem stages_in_order:
  fixes w :: "'v world"
  shows
    "(\<exists>k v i1 i2 evs. k \<le> 8 \<and>
        trace (snd (run w)) = ok (cells_upto k w v i1 i2) @ evs \<and>
        (\<forall>ev\<in>set evs. cell_call (cell_stage (Suc k)) (fst ev)) \<and>
        (k = 8 \<longrightarrow> evs = []) \<and> (fst (run w) = Inr () \<longleftrightarrow> k = 8)) \<and>
     sorted (stages (trace (snd (run w)))) \<and>
     set (stages (trace (snd (run w)))) \<subseteq> {1..6} \<and>
     (fst (run w) = Inr () \<longrightarrow> set (stages (trace (snd (run w)))) = {1..6}) \<and>
     (\<forall>pre x post. trace (snd (run w)) = pre @ x # post \<longrightarrow> is_save (fst x) \<longrightarrow>
        (\<exists>mid. pre = ok (cell_define_calls @ cell_train_calls w) @ mid)) \<and>
     (\<forall>pre x post. trace (snd (run w)) = pre @ x # post \<longrightarrow> is_export (fst x) \<longrightarrow>
        (\<exists>v mid. pre = ok (cell_define_calls @ cell_train_calls w @ cell_save_calls v) @ mid \<and>
           files (snd (run w)) ''output/mnist.pth'' = Some (pickle w v)))"
proof (intro conjI allI impI)
  from run_log[of w]
  show "\<exists>k v i1 i2 evs. k \<le> 8 \<and>
        trace (snd (run w)) = ok (cells_upto k w v i1 i2) @ evs \<and>
        (\<forall>ev\<in>set evs. cell_call (cell_stage (Suc k)) (fst ev)) \<and>
        (k = 8 \<longrightarrow> evs = []) \<and> (fst (run w) = Inr () \<longleftrightarrow> k = 8)"
    by blast
  show "sorted (stages (trace (snd (run w))))" by (rule run_sorted)
  show "set (stages (trace (snd (run w)))) \<subseteq> {1..6}" by (rule run_sorted)
  show "set (stages (trace (snd (run w)))) = {1..6}" if "fst (run w) = Inr ()"
    using that by (rule run_completed_stages)
  show "\<exists>mid. pre = ok (cell_define_calls @ cell_train_calls w) @ mid"
    if "trace (snd (run w)) = pre @ x # post" "is_save (fst x)" for pre x post
    using that by (rule save_after_training)
  show "\<exists>v mid. pre = ok (cell_define_calls @ cell_train_calls w @ cell_save_calls v) @ mid \<and>
           files (snd (run w)) ''output/mnist.pth'' = Some (pickle w v)"
    if "trace (snd (run w)) = pre @ x # post" "is_export (fst x)" for pre x post
    using that by (rule export_after_save)
qed

theorem stages_in_order_witness:
  "fst (run calm_world) = Inr () \<and>
   sorted (stages (trace (snd (run calm_world)))) \<and>
   set (stages (trace (snd (run calm_world)))) = {1..6} \<and>
   (\<exists>pre x post. trace (snd (run calm_world)) = pre @ x # post \<and> is_save (fst x) \<and>
      (\<exists>mid. pre = ok (cell_define_calls @ cell_train_calls calm_world) @ mid)) \<and>
   (\<exists>pre x post v. trace (snd (run calm_world)) = pre @ x # post \<and> is_export (fst x) \<and>
      (\<exists>mid. pre = ok (cell_define_calls @ cell_train_calls calm_world @ cell_save_calls v) @ mid) \<and>
      files (snd (run calm_world)) ''output/mnist.pth'' = Some v)"
proof -
  note t = stages_in_order[of calm_world]
  from run_calm_world obtain v where
    r: "fst (run calm_world) = Inr ()"
    and tr: "trace (snd (run calm_world)) = ok (notebook_calls calm_world v 2 3)"
    by (auto simp: completed_def)
  from notebook_calls_save[of calm_world v 2 3] tr obtain post1 where
    s: "trace (snd (run calm_world)) =
      ok (cell_define_calls @ cell_train_calls calm_world @ [Module StateDict])
      @ (Model (TorchSave v ''output/mnist.pth''), None) # ok post1"
    by auto
  from notebook_calls_export[of calm_world v 2 3] tr obtain mid2 post2 where
    e: "trace (snd (run calm_world)) =
      ok (cell_define_calls @ cell_train_calls calm_world @ cell_save_calls v @ mid2)
      @ (Model (OnnxExport \<lparr>params = loaded_params calm_world v, training = True\<rparr>
           (dummy_of calm_world) ''output/mnist.onnx''), None) # ok post2"
    by auto
  from t s have 1: "\<exists>mid. ok (cell_define_calls @ cell_train_calls calm_world @ [Module StateDict])
      = ok (cell_define_calls @ cell_train_calls calm_world) @ mid"
    by simp
  from t e obtain v' mid where 2:
    "ok (cell_define_calls @ cell_train_calls calm_world @ cell_save_calls v @ mid2) =
     ok (cell_define_calls @ cell_train_calls calm_world @ cell_save_calls v') @ mid"
    "files (snd (run calm_world)) ''output/mnist.pth'' = Some (pickle calm_world v')"
    by (metis fst_conv is_export.simps(1))
  have "sorted (stages (trace (snd (run calm_world))))" using t by blast
  moreover have "set (stages (trace (snd (run calm_world)))) = {1..6}" using t r by blast
  moreover have "\<exists>pre x post. trace (snd (run calm_world)) = pre @ x # post \<and> is_save (fst x) \<and>
      (\<exists>mid. pre = ok (cell_define_calls @ cell_train_calls calm_world) @ mid)"
  proof -
    from 1 obtain mid1 where m1:
      "ok (cell_define_calls @ cell_train_calls calm_world @ [Module StateDict])
        = ok (cell_define_calls @ cell_train_calls calm_world) @ mid1" ..
    show ?thesis
      apply (intro exI conjI)
        apply (rule s)
       apply simp
      apply (rule m1)
      done
  qed
  moreover have "\<exists>pre x post v. trace (snd (run calm_world)) = pre @ x # post \<and> is_export (fst x) \<and>
      (\<exists>mid. pre = ok (cell_define_calls @ cell_train_calls calm_world @ cell_save_calls v) @ mid) \<and>
      files (snd (run calm_world)) ''output/mnist.pth'' = Some v"
    apply (intro exI conjI)
       apply (rule e)
      apply simp
     apply (rule 2(1))
    using 2(2) apply simp
    done
  ultimately show ?thesis using r by blast
qed

subsection \<open>The export to ONNX\<close>

text \<open>
  Claim C2.  The export stage calls \<open>torch.onnx.export\<close> once, with the model and one
  dummy input.  For every world, the log of the run holds at most one call of the
  exporter, and every such call is given a tensor of shape 1 x 1 x 28 x 28 and the path
  \<open>output/mnist.onnx\<close>.  In a run that returns normally there is exactly one, it did not
  raise, its input is the tensor \<open>dummy_of w\<close> that the one call of \<open>torch.randn\<close> of cell
  4 returned for the shape 1 x 1 x 28 x 28, and the file \<open>output/mnist.onnx\<close> holds what
  the exporter makes of that model and that input.
\<close>

theorem export_once:
  fixes w :: "'v world"
  shows
    "length (filter (is_export \<circ> fst) (trace (snd (run w)))) \<le> 1 \<and>
     (\<forall>m x p r. (Model (OnnxExport m x p), r) \<in> set (trace (snd (run w))) \<longrightarrow>
        shape x = [1, 1, 28, 28] \<and> p = ''output/mnist.onnx'') \<and>
     (fst (run w) = Inr () \<longrightarrow>
        (\<exists>m. filter (is_export \<circ> fst) (trace (snd (run w))) =
               [(Model (OnnxExport m (dummy_of w) ''output/mnist.onnx''), None)] \<and>
             files (snd (run w)) ''output/mnist.onnx'' = Some (onnx_bytes w m (dummy_of w))) \<and>
        trace (snd (run w)) ! (length (cell_train_calls w) + 15) =
          (Torch (Randn [1, 1, 28, 28]), None) \<and>
        dummy_of w =
          \<lparr>shape = [1, 1, 28, 28],
           elems = randn w (length (cell_train_calls w) + 15) [1, 1, 28, 28]\<rparr>)"
proof (intro conjI allI impI)
  from run_exports[of w] show "length (filter (is_export \<circ> fst) (trace (snd (run w)))) \<le> 1"
    by blast
  show "shape x = [1, 1, 28, 28]" "p = ''output/mnist.onnx''"
    if "(Model (OnnxExport m x p), r) \<in> set (trace (snd (run w)))" for m x p r
    using that by (rule run_export_args)+
  assume r: "fst (run w) = Inr ()"
  with run_exports[of w]
  show "\<exists>m. filter (is_export \<circ> fst) (trace (snd (run w))) =
               [(Model (OnnxExport m (dummy_of w) ''output/mnist.onnx''), None)] \<and>
             files (snd (run w)) ''output/mnist.onnx'' = Some (onnx_bytes w m (dummy_of w))"
    by blast
  from r show "trace (snd (run w)) ! (length (cell_train_calls w) + 15) =
          (Torch (Randn [1, 1, 28, 28]), None)"
    by (rule run_randn)
  show "dummy_of w =
          \<lparr>shape = [1, 1, 28, 28],
           elems = randn w (length (cell_train_calls w) + 15) [1, 1, 28, 28]\<rparr>"
    by (simp add: dummy_of_def dummy_input_def add.commute)
qed

text \<open>In \<open>calm_world\<close> the run returns, with one call of the exporter in its log.\<close>

theorem export_once_witness:
  "fst (run calm_world) = Inr () \<and>
   length (filter (is_export \<circ> fst) (trace (snd (run calm_world)))) = 1 \<and>
   (\<exists>m x. (Model (OnnxExport m x ''output/mnist.onnx''), None) \<in> set (trace (snd (run calm_world))) \<and>
      shape x = [1, 1, 28, 28] \<and>
      files (snd (run calm_world)) ''output/mnist.onnx'' = Some (onnx_bytes calm_world m x))"
proof -
  note t = export_once[of calm_world]
  from run_calm_world have r: "fst (run calm_world) = Inr ()" by (auto simp: completed_def)
  with t obtain m where
    f: "filter (is_export \<circ> fst) (trace (snd (run calm_world))) =
          [(Model (OnnxExport m (dummy_of calm_world) ''output/mnist.onnx''), None)]"
    and o: "files (snd (run calm_world)) ''output/mnist.onnx'' =
          Some (onnx_bytes calm_world m (dummy_of calm_world))"
    by blast
  have "(Model (OnnxExport m (dummy_of calm_world) ''output/mnist.onnx''), None)
      \<in> set (filter (is_export \<circ> fst) (trace (snd (run calm_world))))"
    unfolding f by simp
  then have mem: "(Model (OnnxExport m (dummy_of calm_world) ''output/mnist.onnx''), None)
      \<in> set (trace (snd (run calm_world)))" by simp
  with t have "shape (dummy_of calm_world) = [1, 1, 28, 28]" by blast
  with r f o mem show ?thesis by (intro conjI exI[of _ m] exI[of _ "dummy_of calm_world"]) simp_all
qed

subsection \<open>Exceptions\<close>

text \<open>
  Claim C5, amended.  Nothing in the notebook catches, retries or recovers from an
  exception, but an exception does not always reach the top level unmodified: a call
  that raises inside the block of \<open>with torch.no_grad()\<close> is followed by the \<open>__exit__\<close> of
  the context manager, and if \<open>__exit__\<close> raises too, its exception is the one that the
  run ends with.  For every world: the log is exact, that is, each call is logged with
  the exception that the world (or a zero divisor, or a missing file) makes it raise,
  and without one otherwise; a run that returns has logged no exception; and every
  call \<open>i\<close> that raised \<open>e\<close> is either the last call of the log, and the run ends with
  \<open>e\<close>, or it is a call inside the block, the one call after it is the \<open>__exit__\<close> of
  the block, and the run ends with \<open>e\<close> if the world lets \<open>__exit__\<close> return and with
  the exception of \<open>__exit__\<close> if not.  The first case holds outside the block and for
  \<open>__exit__\<close> itself, the second inside the block.
\<close>

theorem exceptions_propagate:
  fixes w :: "'v world"
  shows
    "exact w (files0 w) 0 (trace (snd (run w))) \<and>
     (\<forall>i. i < length (trace (snd (run w))) \<longrightarrow>
        snd (trace (snd (run w)) ! i) =
          outcome w (written w (files0 w) (take i (trace (snd (run w))))) i
            (fst (trace (snd (run w)) ! i))) \<and>
     (\<forall>u. fst (run w) = Inr u \<longrightarrow> quiet (trace (snd (run w)))) \<and>
     (\<forall>e. fst (run w) = Inl e \<longrightarrow>
        aborted e (trace (snd (run w))) \<or> aborted_in_with e (trace (snd (run w)))) \<and>
     (\<forall>i e. i < length (trace (snd (run w))) \<longrightarrow> snd (trace (snd (run w)) ! i) = Some e \<longrightarrow>
        (Suc i = length (trace (snd (run w))) \<and> fst (run w) = Inl e \<and>
         (inside False (take i (trace (snd (run w)))) \<longrightarrow>
            fst (trace (snd (run w)) ! i) = Torch NoGradExit)) \<or>
        (Suc (Suc i) = length (trace (snd (run w))) \<and>
         inside False (take i (trace (snd (run w)))) \<and>
         fst (trace (snd (run w)) ! i) \<noteq> Torch NoGradExit \<and>
         fst (trace (snd (run w)) ! Suc i) = Torch NoGradExit \<and>
         snd (trace (snd (run w)) ! Suc i) = raises w (Suc i) (Torch NoGradExit) \<and>
         fst (run w) =
           Inl (case raises w (Suc i) (Torch NoGradExit) of None \<Rightarrow> e | Some e1 \<Rightarrow> e1)))"
proof (intro conjI allI impI)
  let ?tr = "trace (snd (run w))"
  note oc = run_envelope(1)[of w]
  show "exact w (files0 w) 0 ?tr" by (rule run_envelope(2))
  show "snd (?tr ! i) = outcome w (written w (files0 w) (take i ?tr)) i (fst (?tr ! i))"
    if "i < length ?tr" for i
    using exact_nth[OF run_envelope(2) that] by simp
  show "quiet ?tr" if "fst (run w) = Inr u" for u
    using oc that by (simp add: outcome_ok_def)
  show "aborted e ?tr \<or> aborted_in_with e ?tr" if "fst (run w) = Inl e" for e
    using oc that by (simp add: outcome_ok_def)
  fix i e
  assume "i < length ?tr" "snd (?tr ! i) = Some e"
  then show "(Suc i = length ?tr \<and> fst (run w) = Inl e \<and>
         (inside False (take i ?tr) \<longrightarrow> fst (?tr ! i) = Torch NoGradExit)) \<or>
        (Suc (Suc i) = length ?tr \<and> inside False (take i ?tr) \<and>
         fst (?tr ! i) \<noteq> Torch NoGradExit \<and>
         fst (?tr ! Suc i) = Torch NoGradExit \<and>
         snd (?tr ! Suc i) = raises w (Suc i) (Torch NoGradExit) \<and>
         fst (run w) =
           Inl (case raises w (Suc i) (Torch NoGradExit) of None \<Rightarrow> e | Some e1 \<Rightarrow> e1))"
    by (rule raised_cases)
qed

text \<open>The claim as it stands fails in the world \<open>with_world (Some (LibraryError ''e1''))\<close>:
  call 45, the making of the iterator of the test loader, raises \<open>RuntimeError ''e0''\<close>
  inside the block, \<open>__exit__\<close> raises \<open>LibraryError ''e1''\<close>, and the run ends with the
  latter.\<close>

theorem exceptions_propagate_counterexample:
  "raises (with_world (Some (LibraryError ''e1''))) 45 (Data (LoaderIter TestLoader))
     = Some (RuntimeError ''e0'') \<and>
   trace (snd (run (with_world (Some (LibraryError ''e1''))))) ! 45
     = (Data (LoaderIter TestLoader), Some (RuntimeError ''e0'')) \<and>
   fst (run (with_world (Some (LibraryError ''e1'')))) = Inl (LibraryError ''e1'') \<and>
   fst (run (with_world (Some (LibraryError ''e1'')))) \<noteq> Inl (RuntimeError ''e0'')"
  by (simp add: with_world_log)

text \<open>In \<open>with_world None\<close> the same call raises inside the block, \<open>__exit__\<close> returns,
  and the run ends with the exception of the call; in \<open>broken_world\<close> the third import
  raises, outside any block, and the run ends there; in \<open>calm_world\<close> nothing raises.\<close>

theorem exceptions_propagate_witness:
  "fst (run (with_world None)) = Inl (RuntimeError ''e0'') \<and>
   inside False (take 45 (trace (snd (run (with_world None))))) \<and>
   trace (snd (run (with_world None))) ! 46 = (Torch NoGradExit, None) \<and>
   fst (run (with_world (Some (LibraryError ''e1'')))) = Inl (LibraryError ''e1'') \<and>
   fst (run broken_world) = Inl (ImportError ''torch.nn.functional'') \<and>
   length (trace (snd (run broken_world))) = 3 \<and>
   fst (run calm_world) = Inr () \<and> quiet (trace (snd (run calm_world)))"
proof -
  let ?w0 = "with_world None" and ?w1 = "with_world (Some (LibraryError ''e1''))"
  have a: "(45::nat) < length (trace (snd (run ?w0)))"
    "snd (trace (snd (run ?w0)) ! 45) = Some (RuntimeError ''e0'')"
    "Suc 45 \<noteq> length (trace (snd (run ?w0)))"
    by (simp_all add: with_world_log)
  from exceptions_propagate[of ?w0] a
  have 0: "inside False (take 45 (trace (snd (run ?w0))))"
    "fst (run ?w0) =
       Inl (case raises ?w0 (Suc 45) (Torch NoGradExit) of None \<Rightarrow> RuntimeError ''e0''
            | Some e1 \<Rightarrow> e1)"
    "fst (trace (snd (run ?w0)) ! Suc 45) = Torch NoGradExit"
    "snd (trace (snd (run ?w0)) ! Suc 45) = raises ?w0 (Suc 45) (Torch NoGradExit)"
    by blast+
  have b: "(46::nat) < length (trace (snd (run ?w1)))"
    "snd (trace (snd (run ?w1)) ! 46) = Some (LibraryError ''e1'')"
    "Suc (Suc 46) \<noteq> length (trace (snd (run ?w1)))"
    by (simp_all add: with_world_log)
  from exceptions_propagate[of ?w1] b
  have 1: "fst (run ?w1) = Inl (LibraryError ''e1'')" by blast
  have c: "(2::nat) < length (trace (snd (run broken_world)))"
    "snd (trace (snd (run broken_world)) ! 2) = Some (ImportError ''torch.nn.functional'')"
    "Suc (Suc 2) \<noteq> length (trace (snd (run broken_world)))"
    by (simp_all add: run_broken_world)
  from exceptions_propagate[of broken_world] c
  have 2: "fst (run broken_world) = Inl (ImportError ''torch.nn.functional'')"
    "Suc 2 = length (trace (snd (run broken_world)))" by blast+
  from run_calm_world have d: "fst (run calm_world) = Inr ()" by (auto simp: completed_def)
  with exceptions_propagate[of calm_world] have 3: "quiet (trace (snd (run calm_world)))"
    by blast
  from 0(3,4) have "trace (snd (run ?w0)) ! 46 = (Torch NoGradExit, None)"
    by (simp add: prod_eq_iff)
  with 0(1,2) 1 2 d 3 show ?thesis by simp
qed

subsection \<open>The exported parameters\<close>




end
